theory Spec2Isabelle
  imports Main "HOL-Library.Multiset"
begin

section \<open>Coldsweat: entry state and entry views\<close>

text \<open>
  A shallow embedding of the parts of \<^verbatim>\<open>coldsweat/models.py\<close> and
  \<^verbatim>\<open>coldsweat/frontend.py\<close> that keep the per-user read and saved state of feed
  entries and that build the entry views. The database is a record of tables, a table is
  the list of its rows, a query is a filtered product of tables, and every handler takes
  the database and returns the database it leaves behind together with its outcome.
\<close>

subsection \<open>Tables (models.py)\<close>

text \<open>
  Identifiers are the integer primary keys that peewee adds to every model; a foreign key
  field holds the identifier of the row it points to. A \<^verbatim>\<open>DateTimeField\<close> is an instant
  on a linear time scale, here an integer; a nullable field is an \<open>option\<close>. Columns that no
  query of the frontend reads (guid, content, author, links, etag, counters) are left out
  of the rows, and so is the surrogate key of \<^verbatim>\<open>Read\<close> and \<^verbatim>\<open>Saved\<close>, which nothing
  refers to.
\<close>

type_synonym datetime = int
type_synonym user = int

record icon =
  icon_id :: int
  icon_data :: string

record group =
  group_id :: int
  group_title :: string

record feed =
  feed_id :: int
  feed_icon :: int
  feed_title :: "string option"
  feed_last_checked_on :: "datetime option"

record entry =
  entry_id :: int
  entry_feed :: int
  entry_title :: string
  entry_last_updated_on :: datetime

record saved =
  saved_user :: user
  saved_entry :: int
  saved_on :: datetime

record read =
  read_user :: user
  read_entry :: int
  read_on :: datetime

record subscription =
  subscription_id :: int
  subscription_user :: user
  subscription_group :: int
  subscription_feed :: int

record db =
  icons :: "icon list"
  groups :: "group list"
  feeds :: "feed list"
  entries :: "entry list"
  saveds :: "saved list"
  reads :: "read list"
  subscriptions :: "subscription list"

subsection \<open>Exceptions and HTTP errors\<close>

text \<open>
  \<open>exc\<close> are the Python exceptions that the library calls of the frontend raise,
  \<open>error\<close> is what leaves a handler: one of the HTTP errors that the handlers raise
  themselves, the redirect to the login page, or an exception that no \<^verbatim>\<open>except\<close> clause
  of the handler caught.
\<close>

datatype exc = KeyError | ValueError | OverflowError | IntegrityError | DoesNotExist

datatype error = HTTPBadRequest | HTTPNotFound | HTTPTemporaryRedirect | Uncaught exc

subsection \<open>Row operations\<close>

text \<open>
  \<^verbatim>\<open>Read.create(user=user, entry=entry)\<close> inserts a row whose \<^verbatim>\<open>read_on\<close> is the clock
  reading \<open>now\<close> (the field's default is \<^verbatim>\<open>datetime.utcnow\<close>). The unique index on
  \<^verbatim>\<open>('user', 'entry')\<close> makes the insert fail with \<^verbatim>\<open>IntegrityError\<close> when the pair is
  already there. \<^verbatim>\<open>Saved.create\<close> is the same on the other table.
\<close>

definition Read_create :: "datetime \<Rightarrow> user \<Rightarrow> entry \<Rightarrow> db \<Rightarrow> exc + db" where
  "Read_create now u e d =
     (if (u, entry_id e) \<in> set (map (\<lambda>r. (read_user r, read_entry r)) (reads d))
      then Inl IntegrityError
      else Inr (d\<lparr>reads := reads d @ [\<lparr>read_user = u, read_entry = entry_id e, read_on = now\<rparr>]\<rparr>))"

definition Saved_create :: "datetime \<Rightarrow> user \<Rightarrow> entry \<Rightarrow> db \<Rightarrow> exc + db" where
  "Saved_create now u e d =
     (if (u, entry_id e) \<in> set (map (\<lambda>r. (saved_user r, saved_entry r)) (saveds d))
      then Inl IntegrityError
      else Inr (d\<lparr>saveds := saveds d @ [\<lparr>saved_user = u, saved_entry = entry_id e, saved_on = now\<rparr>]\<rparr>))"

text \<open>
  \<^verbatim>\<open>Read.delete().where(...).execute()\<close> removes the matching rows and returns how many
  there were.
\<close>

definition Read_delete :: "(read \<Rightarrow> bool) \<Rightarrow> db \<Rightarrow> nat \<times> db" where
  "Read_delete p d = (length (filter p (reads d)), d\<lparr>reads := filter (\<lambda>r. \<not> p r) (reads d)\<rparr>)"

definition Saved_delete :: "(saved \<Rightarrow> bool) \<Rightarrow> db \<Rightarrow> nat \<times> db" where
  "Saved_delete p d = (length (filter p (saveds d)), d\<lparr>saveds := filter (\<lambda>r. \<not> p r) (saveds d)\<rparr>)"

subsection \<open>Marking one entry (FrontendApp._mark_entry)\<close>

text \<open>
  The source's \<^verbatim>\<open>_mark_entry\<close>. Each \<^verbatim>\<open>try\<close> catches \<^verbatim>\<open>IntegrityError\<close> only, and the
  early \<^verbatim>\<open>return\<close>s skip nothing but the last log line, so both branches on the row count
  end with the same database. A status that is none of the four falls through to the log
  line.
\<close>

definition mark_entry :: "datetime \<Rightarrow> user \<Rightarrow> entry \<Rightarrow> string \<Rightarrow> db \<Rightarrow> exc + db" where
  "mark_entry now u e status d =
     (if status = ''read'' then
        (case Read_create now u e d of
           Inl x \<Rightarrow> if x = IntegrityError then Inr d else Inl x
         | Inr d' \<Rightarrow> Inr d')
      else if status = ''unread'' then
        (case Read_delete (\<lambda>r. read_user r = u \<and> read_entry r = entry_id e) d of
           (cnt, d') \<Rightarrow> if cnt = 0 then Inr d' else Inr d')
      else if status = ''saved'' then
        (case Saved_create now u e d of
           Inl x \<Rightarrow> if x = IntegrityError then Inr d else Inl x
         | Inr d' \<Rightarrow> Inr d')
      else if status = ''unsaved'' then
        (case Saved_delete (\<lambda>r. saved_user r = u \<and> saved_entry r = entry_id e) d of
           (cnt, d') \<Rightarrow> if cnt = 0 then Inr d' else Inr d')
      else Inr d)"

text \<open>The Read and Saved relations as sets of (user, entry) pairs.\<close>

definition read_pairs :: "db \<Rightarrow> (user \<times> int) set" where
  "read_pairs d = set (map (\<lambda>r. (read_user r, read_entry r)) (reads d))"

definition saved_pairs :: "db \<Rightarrow> (user \<times> int) set" where
  "saved_pairs d = set (map (\<lambda>r. (saved_user r, saved_entry r)) (saveds d))"

subsection \<open>Schema constraints (models.py)\<close>

text \<open>
  What the database enforces on every state: primary keys are unique, the index
  \<^verbatim>\<open>(('user', 'group', 'feed'), True)\<close> of \<^verbatim>\<open>Subscription\<close> is unique, and the foreign
  keys \<^verbatim>\<open>Entry.feed\<close> and \<^verbatim>\<open>Feed.icon\<close> point to existing rows.
\<close>

definition pk_unique :: "db \<Rightarrow> bool" where
  "pk_unique d \<longleftrightarrow>
     distinct (map icon_id (icons d)) \<and> distinct (map feed_id (feeds d)) \<and>
     distinct (map entry_id (entries d)) \<and> distinct (map subscription_id (subscriptions d))"

definition subscription_unique :: "db \<Rightarrow> bool" where
  "subscription_unique d \<longleftrightarrow>
     distinct (map (\<lambda>s. (subscription_user s, subscription_group s, subscription_feed s))
       (subscriptions d))"

definition fk_ok :: "db \<Rightarrow> bool" where
  "fk_ok d \<longleftrightarrow>
     (\<forall>e \<in> set (entries d). entry_feed e \<in> feed_id ` set (feeds d)) \<and>
     (\<forall>f \<in> set (feeds d). feed_icon f \<in> icon_id ` set (icons d))"

subsection \<open>Entry queries (frontend.py, Queries)\<close>

text \<open>
  A peewee query is built step by step and runs when it is iterated or counted, so it is a
  record of its clauses and \<open>execute\<close> runs it on a database. The source's \<^verbatim>\<open>_q\<close> joins
  \<^verbatim>\<open>Entry\<close> to \<^verbatim>\<open>Feed\<close>, \<^verbatim>\<open>Feed\<close> to \<^verbatim>\<open>Icon\<close> and, after \<^verbatim>\<open>switch(Feed)\<close>, \<^verbatim>\<open>Feed\<close>
  to \<^verbatim>\<open>Subscription\<close>; all three are inner joins on the foreign key, that is, the rows of
  the product of the four tables whose keys agree.
\<close>

type_synonym joined = "entry \<times> feed \<times> icon \<times> subscription"

record 'a query =
  q_select :: "joined \<Rightarrow> 'a"
  q_where :: "db \<Rightarrow> joined \<Rightarrow> bool"
  q_distinct :: bool
  q_order_by_desc :: bool
  q_offset :: int
  q_limit :: "nat option"

definition joined_rows :: "db \<Rightarrow> joined list" where
  "joined_rows d =
     filter (\<lambda>(e, f, i, s). entry_feed e = feed_id f \<and> feed_icon f = icon_id i \<and>
                subscription_feed s = feed_id f)
       (List.product (entries d) (List.product (feeds d)
          (List.product (icons d) (subscriptions d))))"

text \<open>
  The two select lists the frontend uses: \<^verbatim>\<open>Entry.id\<close>, and the default
  \<^verbatim>\<open>[Entry, Feed, Icon]\<close>.
\<close>

definition select_Entry_id :: "joined \<Rightarrow> int" where
  "select_Entry_id = (\<lambda>(e, f, i, s). entry_id e)"

definition select_default :: "joined \<Rightarrow> entry \<times> feed \<times> icon" where
  "select_default = (\<lambda>(e, f, i, s). (e, f, i))"

text \<open>The source's \<^verbatim>\<open>_q\<close>: the join with a select list and no other clause.\<close>

definition base_q :: "(joined \<Rightarrow> 'a) \<Rightarrow> 'a query" where
  "base_q sel = \<lparr>q_select = sel, q_where = (\<lambda>d r. True), q_distinct = False,
     q_order_by_desc = False, q_offset = 0, q_limit = None\<rparr>"

definition where_clause :: "(db \<Rightarrow> joined \<Rightarrow> bool) \<Rightarrow> 'a query \<Rightarrow> 'a query" where
  "where_clause p q = q\<lparr>q_where := (\<lambda>d r. q_where q d r \<and> p d r)\<rparr>"

definition distinct_clause :: "'a query \<Rightarrow> 'a query" where
  "distinct_clause q = q\<lparr>q_distinct := True\<rparr>"

definition order_by_last_updated_on_desc :: "'a query \<Rightarrow> 'a query" where
  "order_by_last_updated_on_desc q = q\<lparr>q_order_by_desc := True\<rparr>"

definition offset_clause :: "int \<Rightarrow> 'a query \<Rightarrow> 'a query" where
  "offset_clause n q = q\<lparr>q_offset := n\<rparr>"

definition limit_clause :: "nat \<Rightarrow> 'a query \<Rightarrow> 'a query" where
  "limit_clause n q = q\<lparr>q_limit := Some n\<rparr>"

text \<open>
  Running a query: the joined rows that pass the \<^verbatim>\<open>WHERE\<close> clause, ordered by
  \<^verbatim>\<open>Entry.last_updated_on\<close> descending when asked (a stable sort: rows with equal dates
  keep the order of the join), projected to the select list, without repeated rows under
  \<^verbatim>\<open>DISTINCT\<close>, then \<^verbatim>\<open>OFFSET\<close> and \<^verbatim>\<open>LIMIT\<close>. A negative offset skips nothing, as
  in SQLite.
\<close>

definition execute :: "db \<Rightarrow> 'a query \<Rightarrow> 'a list" where
  "execute d q =
     (let rows0 = filter (q_where q d) (joined_rows d);
          rows1 = (if q_order_by_desc q
                   then sort_key (\<lambda>r. - entry_last_updated_on (fst r)) rows0 else rows0);
          rows2 = map (q_select q) rows1;
          rows3 = (if q_distinct q then remdups rows2 else rows2);
          rows4 = drop (nat (q_offset q)) rows3
      in case q_limit q of None \<Rightarrow> rows4 | Some n \<Rightarrow> take n rows4)"

text \<open>\<^verbatim>\<open>q.count()\<close>: the number of rows of the query.\<close>

definition count_rows :: "db \<Rightarrow> 'a query \<Rightarrow> nat" where
  "count_rows d q = length (execute d q)"

text \<open>
  The subquery \<^verbatim>\<open>Read.select(Read.entry).where(Read.user == user)\<close> and its \<^verbatim>\<open>Saved\<close>
  twin, as lists of entry identifiers.
\<close>

definition read_entries_of :: "db \<Rightarrow> user \<Rightarrow> int list" where
  "read_entries_of d u = map read_entry (filter (\<lambda>r. read_user r = u) (reads d))"

definition saved_entries_of :: "db \<Rightarrow> user \<Rightarrow> int list" where
  "saved_entries_of d u = map saved_entry (filter (\<lambda>r. saved_user r = u) (saveds d))"

definition get_unread_entries :: "user \<Rightarrow> (joined \<Rightarrow> 'a) \<Rightarrow> 'a query" where
  "get_unread_entries u sel =
     distinct_clause (where_clause
       (\<lambda>d (e, f, i, s). subscription_user s = u \<and> \<not> (entry_id e \<in> set (read_entries_of d u)))
       (base_q sel))"

definition get_saved_entries :: "user \<Rightarrow> (joined \<Rightarrow> 'a) \<Rightarrow> 'a query" where
  "get_saved_entries u sel =
     distinct_clause (where_clause
       (\<lambda>d (e, f, i, s). subscription_user s = u \<and> entry_id e \<in> set (saved_entries_of d u))
       (base_q sel))"

definition get_all_entries :: "user \<Rightarrow> (joined \<Rightarrow> 'a) \<Rightarrow> 'a query" where
  "get_all_entries u sel =
     distinct_clause (where_clause (\<lambda>d (e, f, i, s). subscription_user s = u) (base_q sel))"

definition get_group_entries :: "user \<Rightarrow> group \<Rightarrow> (joined \<Rightarrow> 'a) \<Rightarrow> 'a query" where
  "get_group_entries u g sel =
     where_clause
       (\<lambda>d (e, f, i, s). subscription_user s = u \<and> subscription_group s = group_id g)
       (base_q sel)"

definition get_feed_entries :: "user \<Rightarrow> feed \<Rightarrow> (joined \<Rightarrow> 'a) \<Rightarrow> 'a query" where
  "get_feed_entries u fd sel =
     distinct_clause (where_clause
       (\<lambda>d (e, f, i, s). subscription_user s = u \<and> subscription_feed s = feed_id fd)
       (base_q sel))"

text \<open>
  \<^verbatim>\<open>Model.get(Model.id == n)\<close> returns the first row with that identifier and raises
  \<^verbatim>\<open>DoesNotExist\<close> when there is none.
\<close>

definition Entry_get :: "db \<Rightarrow> int \<Rightarrow> exc + entry" where
  "Entry_get d n =
     (case find (\<lambda>e. entry_id e = n) (entries d) of None \<Rightarrow> Inl DoesNotExist | Some e \<Rightarrow> Inr e)"

definition Group_get :: "db \<Rightarrow> int \<Rightarrow> exc + group" where
  "Group_get d n =
     (case find (\<lambda>g. group_id g = n) (groups d) of None \<Rightarrow> Inl DoesNotExist | Some g \<Rightarrow> Inr g)"

definition Feed_get :: "db \<Rightarrow> int \<Rightarrow> exc + feed" where
  "Feed_get d n =
     (case find (\<lambda>f. feed_id f = n) (feeds d) of None \<Rightarrow> Inl DoesNotExist | Some f \<Rightarrow> Inr f)"

subsection \<open>Requests and the login gate\<close>

text \<open>
  \<^verbatim>\<open>request.GET\<close> and \<^verbatim>\<open>request.POST\<close> map parameter names to strings. Python's
  \<^verbatim>\<open>int\<close> and \<^verbatim>\<open>datetime.utcfromtimestamp\<close> are not code of this program: the handlers
  take them as the parameters \<open>py_int\<close> and \<open>utcfromtimestamp\<close>, each returning its
  value or the exception it raises. \<^verbatim>\<open>self.user\<close> is the user of the session, if any.
\<close>

type_synonym params = "string \<rightharpoonup> string"

definition ENTRIES_PER_PAGE :: nat where
  "ENTRIES_PER_PAGE = 30"

definition login_required ::
  "(user \<Rightarrow> db \<Rightarrow> db \<times> (error + 'a)) \<Rightarrow> user option \<Rightarrow> db \<Rightarrow> db \<times> (error + 'a)" where
  "login_required handler self_user d =
     (case self_user of Some u \<Rightarrow> handler u d | None \<Rightarrow> (d, Inl HTTPTemporaryRedirect))"

subsection \<open>View variables (FrontendApp._make_view_variables)\<close>

text \<open>
  The source's \<^verbatim>\<open>_make_view_variables\<close> returns the query of the selected filter and the
  template namespace. Of the namespace the model keeps the count, the two identifiers,
  the two identifier sets and the filter class; the titles and the group list only feed
  the templates. No \<^verbatim>\<open>try\<close> surrounds \<^verbatim>\<open>int\<close>, \<^verbatim>\<open>Group.get\<close> or \<^verbatim>\<open>Feed.get\<close> here, so
  their exceptions leave the function.
\<close>

record namespace =
  ns_count :: nat
  ns_group_id :: int
  ns_feed_id :: int
  ns_filter_class :: string
  ns_read_ids :: "int set"
  ns_saved_ids :: "int set"

definition make_view_variables ::
  "(string \<Rightarrow> exc + int) \<Rightarrow> user \<Rightarrow> params \<Rightarrow> db \<Rightarrow>
     exc + ((entry \<times> feed \<times> icon) query \<times> namespace)" where
  "make_view_variables py_int u GET d =
     (let ns = \<lparr>ns_count = 0, ns_group_id = 0, ns_feed_id = 0, ns_filter_class = [],
                ns_read_ids = set (map (\<lambda>(e, r). entry_id e)
                  (filter (\<lambda>(e, r). read_entry r = entry_id e \<and> read_user r = u)
                     (List.product (entries d) (reads d)))),
                ns_saved_ids = set (map (\<lambda>(e, r). entry_id e)
                  (filter (\<lambda>(e, r). saved_entry r = entry_id e \<and> saved_user r = u)
                     (List.product (entries d) (saveds d))))\<rparr>
      in case GET ''saved'' of
        Some _ \<Rightarrow>
          Inr (get_saved_entries u select_default,
               ns\<lparr>ns_count := count_rows d (get_saved_entries u select_Entry_id),
                  ns_filter_class := ''saved''\<rparr>)
      | None \<Rightarrow>
         (case GET ''group'' of
            Some v \<Rightarrow>
              (case py_int v of
                 Inl x \<Rightarrow> Inl x
               | Inr gid \<Rightarrow>
                  (case Group_get d gid of
                     Inl x \<Rightarrow> Inl x
                   | Inr g \<Rightarrow>
                       Inr (get_group_entries u g select_default,
                            ns\<lparr>ns_count := count_rows d (get_group_entries u g select_Entry_id),
                               ns_group_id := gid\<rparr>)))
          | None \<Rightarrow>
             (case GET ''feed'' of
                Some v \<Rightarrow>
                  (case py_int v of
                     Inl x \<Rightarrow> Inl x
                   | Inr fid \<Rightarrow>
                      (case Feed_get d fid of
                         Inl x \<Rightarrow> Inl x
                       | Inr fd \<Rightarrow>
                           Inr (get_feed_entries u fd select_default,
                                ns\<lparr>ns_count := count_rows d (get_feed_entries u fd select_Entry_id),
                                   ns_feed_id := fid, ns_filter_class := ''feeds''\<rparr>)))
              | None \<Rightarrow>
                 (case GET ''all'' of
                    Some _ \<Rightarrow>
                      Inr (get_all_entries u select_default,
                           ns\<lparr>ns_count := count_rows d (get_all_entries u select_Entry_id),
                              ns_filter_class := ''all''\<rparr>)
                  | None \<Rightarrow>
                      Inr (get_unread_entries u select_default,
                           ns\<lparr>ns_count := count_rows d (get_unread_entries u select_Entry_id),
                              ns_filter_class := ''unread''\<rparr>)))))"

subsection \<open>Handlers\<close>

text \<open>
  \<^verbatim>\<open>GET /entries/<id>\<close>, the source's \<^verbatim>\<open>entry\<close>. The route hands over the number it
  matched with \<^verbatim>\<open>\d+\<close>. The row inserted by \<^verbatim>\<open>_mark_entry\<close> is committed on its own, so
  it stays when a later step of the handler raises.
\<close>

record entry_page =
  ep_entry :: entry
  ep_next_entries :: "(entry \<times> feed \<times> icon) list"
  ep_namespace :: namespace

definition entry ::
  "(string \<Rightarrow> exc + int) \<Rightarrow> datetime \<Rightarrow> params \<Rightarrow> int \<Rightarrow> user option \<Rightarrow> db \<Rightarrow>
     db \<times> (error + entry_page)" where
  "entry py_int now GET n =
     login_required (\<lambda>u d.
       case Entry_get d n of
         Inl x \<Rightarrow> (d, Inl (if x = DoesNotExist then HTTPNotFound else Uncaught x))
       | Inr e \<Rightarrow>
          (case mark_entry now u e ''read'' d of
             Inl x \<Rightarrow> (d, Inl (Uncaught x))
           | Inr d1 \<Rightarrow>
              (case make_view_variables py_int u GET d1 of
                 Inl x \<Rightarrow> (d1, Inl (Uncaught x))
               | Inr (q, ns) \<Rightarrow>
                   (d1, Inr \<lparr>ep_entry = e,
                      ep_next_entries = execute d1
                        (limit_clause 1 (order_by_last_updated_on_desc
                           (where_clause
                              (\<lambda>d (e', f, i, s).
                                 entry_last_updated_on e' < entry_last_updated_on e) q))),
                      ep_namespace = ns\<lparr>ns_count := 0\<rparr>\<rparr>))))"

text \<open>\<^verbatim>\<open>POST /entries/<id>\<close>, the source's \<^verbatim>\<open>entry_post\<close>; it answers with no body.\<close>

definition entry_post ::
  "datetime \<Rightarrow> params \<Rightarrow> int \<Rightarrow> user option \<Rightarrow> db \<Rightarrow> db \<times> (error + unit)" where
  "entry_post now POST n =
     login_required (\<lambda>u d.
       case POST ''as'' of
         None \<Rightarrow> (d, Inl HTTPBadRequest)
       | Some status \<Rightarrow>
          (case Entry_get d n of
             Inl x \<Rightarrow> (d, Inl (if x = DoesNotExist then HTTPNotFound else Uncaught x))
           | Inr e \<Rightarrow>
              (case POST ''mark'' of
                 None \<Rightarrow> (d, Inr ())
               | Some _ \<Rightarrow>
                  (case mark_entry now u e status d of
                     Inl x \<Rightarrow> (d, Inl (Uncaught x))
                   | Inr d1 \<Rightarrow> (d1, Inr ())))))"

text \<open>
  \<^verbatim>\<open>GET /entries\<close>, the source's \<^verbatim>\<open>entry_list\<close>: one page of the selected view and the
  offset of the next page. \<^verbatim>\<open>request.GET.get('offset', 0)\<close> is 0 when the parameter is
  absent.
\<close>

record entries_page =
  lp_entries :: "(entry \<times> feed \<times> icon) list"
  lp_offset :: int
  lp_prev_date :: "string option"
  lp_namespace :: namespace

definition entry_list ::
  "(string \<Rightarrow> exc + int) \<Rightarrow> params \<Rightarrow> user option \<Rightarrow> db \<Rightarrow> db \<times> (error + entries_page)" where
  "entry_list py_int GET =
     login_required (\<lambda>u d.
       case make_view_variables py_int u GET d of
         Inl x \<Rightarrow> (d, Inl (Uncaught x))
       | Inr (q, ns) \<Rightarrow>
          (case (case GET ''offset'' of None \<Rightarrow> Inr 0 | Some v \<Rightarrow> py_int v) of
             Inl x \<Rightarrow> (d, Inl (Uncaught x))
           | Inr offset \<Rightarrow>
               (d, Inr \<lparr>lp_entries = execute d
                          (limit_clause ENTRIES_PER_PAGE (offset_clause offset
                             (order_by_last_updated_on_desc q))),
                        lp_offset = offset + int ENTRIES_PER_PAGE,
                        lp_prev_date = GET ''prev_date'',
                        lp_namespace = ns\<rparr>)))"

text \<open>
  \<^verbatim>\<open>POST /entries/mark\<close>, the source's \<^verbatim>\<open>entry_list_mark_post\<close>. The cutoff is parsed
  under \<^verbatim>\<open>except (KeyError, ValueError)\<close>. The query joins \<^verbatim>\<open>Entry\<close> to \<^verbatim>\<open>Feed\<close> and
  \<^verbatim>\<open>Feed\<close> to \<^verbatim>\<open>Subscription\<close>, with no icon and no \<^verbatim>\<open>DISTINCT\<close>. In SQL the comparison
  \<^verbatim>\<open>Feed.last_checked_on < before\<close> is unknown for a null date, and \<^verbatim>\<open>WHERE\<close> keeps a
  row only when its condition is true.
\<close>

definition sql_less :: "datetime option \<Rightarrow> datetime \<Rightarrow> bool" where
  "sql_less t c = (case t of None \<Rightarrow> False | Some t' \<Rightarrow> t' < c)"

definition parse_before ::
  "(string \<Rightarrow> exc + int) \<Rightarrow> (int \<Rightarrow> exc + datetime) \<Rightarrow> params \<Rightarrow> error + datetime" where
  "parse_before py_int utcfromtimestamp POST =
     (case (case POST ''before'' of
              None \<Rightarrow> Inl KeyError
            | Some v \<Rightarrow> (case py_int v of Inl x \<Rightarrow> Inl x | Inr n \<Rightarrow> utcfromtimestamp n)) of
        Inl x \<Rightarrow> if x = KeyError \<or> x = ValueError then Inl HTTPBadRequest else Inl (Uncaught x)
      | Inr before \<Rightarrow> Inr before)"

definition mark_candidates :: "db \<Rightarrow> user \<Rightarrow> datetime \<Rightarrow> entry list" where
  "mark_candidates d u before =
     map fst
       (filter (\<lambda>(e, f, s). entry_feed e = feed_id f \<and> subscription_feed s = feed_id f \<and>
                  subscription_user s = u \<and> \<not> (entry_id e \<in> set (read_entries_of d u)) \<and>
                  sql_less (feed_last_checked_on f) before)
          (List.product (entries d) (List.product (feeds d) (subscriptions d))))"

text \<open>
  The loop of the handler: \<^verbatim>\<open>IntegrityError\<close> is caught and the loop goes on; any other
  exception leaves the loop. A rejected insert undoes only itself and leaves the
  transaction open, as SQLite and MySQL do. The query is read in full before the first
  insert, and every row of one call gets the same clock reading.
\<close>

fun mark_read_loop :: "datetime \<Rightarrow> user \<Rightarrow> entry list \<Rightarrow> db \<Rightarrow> exc + db" where
  "mark_read_loop now u [] d = Inr d"
| "mark_read_loop now u (e # es) d =
     (case Read_create now u e d of
        Inl x \<Rightarrow> if x = IntegrityError then mark_read_loop now u es d else Inl x
      | Inr d' \<Rightarrow> mark_read_loop now u es d')"

text \<open>
  The loop runs inside \<^verbatim>\<open>with transaction()\<close>: an exception that leaves it rolls the
  database back. The answer is the modal alert saying that all entries have been marked.
\<close>

definition entry_list_mark_post ::
  "(string \<Rightarrow> exc + int) \<Rightarrow> (int \<Rightarrow> exc + datetime) \<Rightarrow> datetime \<Rightarrow> params \<Rightarrow>
     user option \<Rightarrow> db \<Rightarrow> db \<times> (error + unit)" where
  "entry_list_mark_post py_int utcfromtimestamp now POST =
     login_required (\<lambda>u d.
       case parse_before py_int utcfromtimestamp POST of
         Inl err \<Rightarrow> (d, Inl err)
       | Inr before \<Rightarrow>
          (case mark_read_loop now u (mark_candidates d u before) d of
             Inl x \<Rightarrow> (d, Inl (Uncaught x))
           | Inr d' \<Rightarrow> (d', Inr ())))"

subsection \<open>The vocabulary of the specification\<close>

text \<open>
  An entry is reachable by a user when one of the user's subscriptions is to the entry's
  feed; an entry belongs to a feed checked before the cutoff when its feed has a
  \<^verbatim>\<open>last_checked_on\<close> strictly before it.
\<close>

definition reachable :: "db \<Rightarrow> user \<Rightarrow> entry \<Rightarrow> bool" where
  "reachable d u e \<longleftrightarrow>
     (\<exists>s \<in> set (subscriptions d). subscription_user s = u \<and> subscription_feed s = entry_feed e)"

definition checked_before :: "db \<Rightarrow> entry \<Rightarrow> datetime \<Rightarrow> bool" where
  "checked_before d e c \<longleftrightarrow>
     (\<exists>f \<in> set (feeds d). feed_id f = entry_feed e \<and>
        (\<exists>t. feed_last_checked_on f = Some t \<and> t < c))"

subsection \<open>An example database\<close>

text \<open>
  User 1 is subscribed to feed 1 in two groups and to feeds 2 and 3 in one; user 2 has no
  subscription. Feed 1 was checked at 100, feed 2 at 200, feed 3 never. User 1 has read
  entry 1.
\<close>

definition example_entry1 :: entry where
  "example_entry1 = \<lparr>entry_id = 1, entry_feed = 1, entry_title = ''a'', entry_last_updated_on = 10\<rparr>"

definition example_entry2 :: entry where
  "example_entry2 = \<lparr>entry_id = 2, entry_feed = 1, entry_title = ''b'', entry_last_updated_on = 20\<rparr>"

definition example_entry3 :: entry where
  "example_entry3 = \<lparr>entry_id = 3, entry_feed = 2, entry_title = ''c'', entry_last_updated_on = 30\<rparr>"

definition example_entry4 :: entry where
  "example_entry4 = \<lparr>entry_id = 4, entry_feed = 3, entry_title = ''d'', entry_last_updated_on = 40\<rparr>"

definition example_db :: db where
  "example_db = \<lparr>
     icons = [\<lparr>icon_id = 1, icon_data = ''i''\<rparr>],
     groups = [\<lparr>group_id = 1, group_title = ''Default''\<rparr>, \<lparr>group_id = 2, group_title = ''News''\<rparr>],
     feeds = [\<lparr>feed_id = 1, feed_icon = 1, feed_title = Some ''F1'', feed_last_checked_on = Some 100\<rparr>,
              \<lparr>feed_id = 2, feed_icon = 1, feed_title = Some ''F2'', feed_last_checked_on = Some 200\<rparr>,
              \<lparr>feed_id = 3, feed_icon = 1, feed_title = None, feed_last_checked_on = None\<rparr>],
     entries = [example_entry1, example_entry2, example_entry3, example_entry4],
     saveds = [],
     reads = [\<lparr>read_user = 1, read_entry = 1, read_on = 50\<rparr>],
     subscriptions =
       [\<lparr>subscription_id = 1, subscription_user = 1, subscription_group = 1, subscription_feed = 1\<rparr>,
        \<lparr>subscription_id = 2, subscription_user = 1, subscription_group = 2, subscription_feed = 1\<rparr>,
        \<lparr>subscription_id = 3, subscription_user = 1, subscription_group = 1, subscription_feed = 2\<rparr>,
        \<lparr>subscription_id = 4, subscription_user = 1, subscription_group = 1, subscription_feed = 3\<rparr>]\<rparr>"

subsection \<open>Stand-ins for the Python builtins\<close>

text \<open>
  Instances of the two parameters for the examples: \<open>digits_int\<close> reads a non-empty
  string of ASCII digits and raises \<^verbatim>\<open>ValueError\<close> on anything else, and
  \<open>example_utcfromtimestamp\<close> accepts the seconds of the years 1 to 9999, raises
  \<^verbatim>\<open>OverflowError\<close> on a number too large to be converted to a float, such as
  \<open>10 ^ 400\<close>, and \<^verbatim>\<open>ValueError\<close> on the other numbers.
\<close>

definition digits_int :: "string \<Rightarrow> exc + int" where
  "digits_int v =
     (if v \<noteq> [] \<and> list_all (\<lambda>c. c \<in> set ''0123456789'') v
      then Inr (foldl (\<lambda>n c. 10 * n + (int (of_char c) - 48)) 0 v)
      else Inl ValueError)"

definition example_utcfromtimestamp :: "int \<Rightarrow> exc + datetime" where
  "example_utcfromtimestamp n =
     (if 2 ^ 1024 \<le> \<bar>n\<bar> then Inl OverflowError
      else if - 62135596800 \<le> n \<and> n \<le> 253402300799 then Inr n
      else Inl ValueError)"

text \<open>
  A query as the view functions return it: not yet ordered, no offset and no limit.
\<close>

definition unpaged :: "'a query \<Rightarrow> bool" where
  "unpaged q \<longleftrightarrow> \<not> q_order_by_desc q \<and> q_offset q = 0 \<and> q_limit q = None"

text \<open>
  A second example: one feed with 45 entries, numbered 0 to 44 and updated at the time of
  their number, one subscription of user 1 and nothing read.
\<close>

definition example_db45 :: db where
  "example_db45 = \<lparr>
     icons = [\<lparr>icon_id = 1, icon_data = ''i''\<rparr>],
     groups = [\<lparr>group_id = 1, group_title = ''Default''\<rparr>],
     feeds = [\<lparr>feed_id = 1, feed_icon = 1, feed_title = None, feed_last_checked_on = None\<rparr>],
     entries = map (\<lambda>k. \<lparr>entry_id = int k, entry_feed = 1, entry_title = [],
                            entry_last_updated_on = int k\<rparr>) [0..<45],
     saveds = [],
     reads = [],
     subscriptions =
       [\<lparr>subscription_id = 1, subscription_user = 1, subscription_group = 1, subscription_feed = 1\<rparr>]\<rparr>"

section \<open>Properties\<close>

subsection \<open>Marking one entry\<close>

lemma Read_create_cases:
  "Read_create now u e d = Inl IntegrityError \<and> (u, entry_id e) \<in> read_pairs d \<or>
   Read_create now u e d = Inr (d\<lparr>reads := reads d @ [\<lparr>read_user = u, read_entry = entry_id e, read_on = now\<rparr>]\<rparr>) \<and> (u, entry_id e) \<notin> read_pairs d"
  by (simp add: Read_create_def read_pairs_def)

lemma Saved_create_cases:
  "Saved_create now u e d = Inl IntegrityError \<and> (u, entry_id e) \<in> saved_pairs d \<or>
   Saved_create now u e d = Inr (d\<lparr>saveds := saveds d @ [\<lparr>saved_user = u, saved_entry = entry_id e, saved_on = now\<rparr>]\<rparr>) \<and> (u, entry_id e) \<notin> saved_pairs d"
  by (simp add: Saved_create_def saved_pairs_def)

lemma Read_create_twice:
  "Read_create now u e d = Inr d' \<Longrightarrow> Read_create now' u e d' = Inl IntegrityError"
  by (auto simp: Read_create_def split: if_splits)

lemma Saved_create_twice:
  "Saved_create now u e d = Inr d' \<Longrightarrow> Saved_create now' u e d' = Inl IntegrityError"
  by (auto simp: Saved_create_def split: if_splits)

lemma Read_create_present:
  "(u, entry_id e) \<in> read_pairs d \<Longrightarrow> Read_create now u e d = Inl IntegrityError"
  by (simp add: Read_create_def read_pairs_def)

lemma Saved_create_present:
  "(u, entry_id e) \<in> saved_pairs d \<Longrightarrow> Saved_create now u e d = Inl IntegrityError"
  by (simp add: Saved_create_def saved_pairs_def)

lemma Read_delete_twice:
  "Read_delete p d = (n, d') \<Longrightarrow> Read_delete p d' = (0, d')"
  by (auto simp: Read_delete_def)

lemma Saved_delete_twice:
  "Saved_delete p d = (n, d') \<Longrightarrow> Saved_delete p d' = (0, d')"
  by (auto simp: Saved_delete_def)

lemma mark_entry_read:
  "mark_entry now u e ''read'' d =
     (case Read_create now u e d of Inl x \<Rightarrow> if x = IntegrityError then Inr d else Inl x
      | Inr d' \<Rightarrow> Inr d')"
  by (simp add: mark_entry_def)

lemma mark_entry_unread:
  "mark_entry now u e ''unread'' d =
     Inr (snd (Read_delete (\<lambda>r. read_user r = u \<and> read_entry r = entry_id e) d))"
  by (simp add: mark_entry_def split: prod.split)

lemma mark_entry_saved:
  "mark_entry now u e ''saved'' d =
     (case Saved_create now u e d of Inl x \<Rightarrow> if x = IntegrityError then Inr d else Inl x
      | Inr d' \<Rightarrow> Inr d')"
  by (simp add: mark_entry_def)

lemma mark_entry_unsaved:
  "mark_entry now u e ''unsaved'' d =
     Inr (snd (Saved_delete (\<lambda>r. saved_user r = u \<and> saved_entry r = entry_id e) d))"
  by (simp add: mark_entry_def split: prod.split)

lemma mark_entry_read_twice:
  "\<exists>d1. mark_entry now u e ''read'' d = Inr d1 \<and> Read_create now' u e d1 = Inl IntegrityError \<and>
     mark_entry now' u e ''read'' d1 = Inr d1"
proof -
  consider (dup) "Read_create now u e d = Inl IntegrityError" "(u, entry_id e) \<in> read_pairs d"
    | (new) d' where "Read_create now u e d = Inr d'"
    using Read_create_cases [of now u e d] by blast
  then show ?thesis
  proof cases
    case dup
    then show ?thesis by (simp add: mark_entry_read Read_create_present)
  next
    case new
    then show ?thesis using Read_create_twice [OF new, of now'] by (simp add: mark_entry_read)
  qed
qed

lemma mark_entry_saved_twice:
  "\<exists>d1. mark_entry now u e ''saved'' d = Inr d1 \<and> Saved_create now' u e d1 = Inl IntegrityError \<and>
     mark_entry now' u e ''saved'' d1 = Inr d1"
proof -
  consider (dup) "Saved_create now u e d = Inl IntegrityError" "(u, entry_id e) \<in> saved_pairs d"
    | (new) d' where "Saved_create now u e d = Inr d'"
    using Saved_create_cases [of now u e d] by blast
  then show ?thesis
  proof cases
    case dup
    then show ?thesis by (simp add: mark_entry_saved Saved_create_present)
  next
    case new
    then show ?thesis using Saved_create_twice [OF new, of now'] by (simp add: mark_entry_saved)
  qed
qed

lemma mark_entry_unread_twice:
  "\<exists>d1. mark_entry now u e ''unread'' d = Inr d1 \<and>
     fst (Read_delete (\<lambda>r. read_user r = u \<and> read_entry r = entry_id e) d1) = 0 \<and>
     mark_entry now' u e ''unread'' d1 = Inr d1"
  by (simp add: mark_entry_unread Read_delete_def)

lemma mark_entry_unsaved_twice:
  "\<exists>d1. mark_entry now u e ''unsaved'' d = Inr d1 \<and>
     fst (Saved_delete (\<lambda>r. saved_user r = u \<and> saved_entry r = entry_id e) d1) = 0 \<and>
     mark_entry now' u e ''unsaved'' d1 = Inr d1"
  by (simp add: mark_entry_unsaved Saved_delete_def)

text \<open>
  C3. For each of the four statuses, marking an entry a second time with the same status
  succeeds and leaves the database as the first marking left it. The second
  \<^verbatim>\<open>read\<close> or \<^verbatim>\<open>saved\<close> meets the uniqueness violation and the second
  \<^verbatim>\<open>unread\<close> or \<^verbatim>\<open>unsaved\<close> deletes zero rows; neither reaches the caller.
\<close>

theorem mark_entry_idempotent:
  assumes "status \<in> {''read'', ''unread'', ''saved'', ''unsaved''}"
  shows "\<exists>d1. mark_entry now u e status d = Inr d1 \<and> mark_entry now' u e status d1 = Inr d1 \<and>
    (status = ''read'' \<longrightarrow> Read_create now' u e d1 = Inl IntegrityError) \<and>
    (status = ''saved'' \<longrightarrow> Saved_create now' u e d1 = Inl IntegrityError) \<and>
    (status = ''unread'' \<longrightarrow>
       fst (Read_delete (\<lambda>r. read_user r = u \<and> read_entry r = entry_id e) d1) = 0) \<and>
    (status = ''unsaved'' \<longrightarrow>
       fst (Saved_delete (\<lambda>r. saved_user r = u \<and> saved_entry r = entry_id e) d1) = 0)"
proof -
  consider "status = ''read''" | "status = ''unread''" | "status = ''saved''" | "status = ''unsaved''"
    using assms by auto
  then show ?thesis
  proof cases
    case 1
    then show ?thesis using mark_entry_read_twice [of now u e d now'] by auto
  next
    case 2
    then show ?thesis using mark_entry_unread_twice [of now u e d now'] by auto
  next
    case 3
    then show ?thesis using mark_entry_saved_twice [of now u e d now'] by auto
  next
    case 4
    then show ?thesis using mark_entry_unsaved_twice [of now u e d now'] by auto
  qed
qed

theorem mark_entry_idempotent_witness:
  "''read'' \<in> {''read'', ''unread'', ''saved'', ''unsaved''} \<and>
   mark_entry 60 1 example_entry2 ''read'' example_db =
     Inr (example_db\<lparr>reads := [\<lparr>read_user = 1, read_entry = 1, read_on = 50\<rparr>,
                                 \<lparr>read_user = 1, read_entry = 2, read_on = 60\<rparr>]\<rparr>) \<and>
   (\<exists>d1. mark_entry 60 1 example_entry2 ''read'' example_db = Inr d1 \<and>
      mark_entry 70 1 example_entry2 ''read'' d1 = Inr d1 \<and>
      Read_create 70 1 example_entry2 d1 = Inl IntegrityError)"
  using mark_entry_idempotent [of "''read''" 60 1 example_entry2 example_db 70]
  by (simp add: mark_entry_def Read_create_def example_db_def example_entry2_def)

subsection \<open>The cutoff of the bulk operation\<close>

lemma parse_before_bad:
  assumes "POST ''before'' = None \<or>
     (\<exists>v. POST ''before'' = Some v \<and>
        (py_int v = Inl ValueError \<or>
         (\<exists>n. py_int v = Inr n \<and> utcfromtimestamp n = Inl ValueError)))"
  shows "parse_before py_int utcfromtimestamp POST = Inl HTTPBadRequest"
  using assms by (auto simp: parse_before_def)

text \<open>
  What the \<^verbatim>\<open>except (KeyError, ValueError)\<close> clause covers: when the \<^verbatim>\<open>before\<close>
  parameter is missing, or \<^verbatim>\<open>int\<close> or \<^verbatim>\<open>utcfromtimestamp\<close> rejects it with
  \<^verbatim>\<open>ValueError\<close>, the bulk operation of a logged-in user answers \<^verbatim>\<open>HTTPBadRequest\<close>
  and the database is the one it was given.
\<close>

lemma bulk_mark_bad_request:
  assumes "POST ''before'' = None \<or>
     (\<exists>v. POST ''before'' = Some v \<and>
        (py_int v = Inl ValueError \<or>
         (\<exists>n. py_int v = Inr n \<and> utcfromtimestamp n = Inl ValueError)))"
  shows "entry_list_mark_post py_int utcfromtimestamp now POST (Some u) d = (d, Inl HTTPBadRequest)"
  using assms by (simp add: parse_before_bad entry_list_mark_post_def login_required_def)

lemma bulk_mark_bad_request_example:
  "entry_list_mark_post digits_int example_utcfromtimestamp 300 Map.empty (Some 1) example_db
     = (example_db, Inl HTTPBadRequest) \<and>
   entry_list_mark_post digits_int example_utcfromtimestamp 300 [''before'' \<mapsto> ''soon''] (Some 1) example_db
     = (example_db, Inl HTTPBadRequest) \<and>
   digits_int ''soon'' = Inl ValueError \<and>
   entry_list_mark_post digits_int example_utcfromtimestamp 300 [''before'' \<mapsto> ''999999999999''] (Some 1) example_db
     = (example_db, Inl HTTPBadRequest) \<and>
   digits_int ''999999999999'' = Inr 999999999999 \<and>
   example_utcfromtimestamp 999999999999 = Inl ValueError"
proof -
  have a: "digits_int ''soon'' = Inl ValueError" by (simp add: digits_int_def)
  have b: "digits_int ''999999999999'' = Inr 999999999999" by (simp add: digits_int_def)
  have c: "example_utcfromtimestamp 999999999999 = Inl ValueError"
    by (simp add: example_utcfromtimestamp_def)
  show ?thesis
    using bulk_mark_bad_request [of Map.empty digits_int example_utcfromtimestamp 300 1 example_db]
      bulk_mark_bad_request [of "[''before'' \<mapsto> ''soon'']" digits_int example_utcfromtimestamp 300 1 example_db]
      bulk_mark_bad_request [of "[''before'' \<mapsto> ''999999999999'']" digits_int example_utcfromtimestamp 300 1 example_db]
      a b c
    by simp
qed

text \<open>
  An exception of the parse that is neither \<^verbatim>\<open>KeyError\<close> nor \<^verbatim>\<open>ValueError\<close> passes
  the \<^verbatim>\<open>except\<close> clause and leaves the handler.
\<close>

lemma bulk_mark_uncaught:
  assumes "POST ''before'' = Some v" "py_int v = Inr n" "utcfromtimestamp n = Inl x"
    "x \<noteq> KeyError" "x \<noteq> ValueError"
  shows "entry_list_mark_post py_int utcfromtimestamp now POST (Some u) d = (d, Inl (Uncaught x))"
  using assms by (simp add: parse_before_def entry_list_mark_post_def login_required_def)

lemma digits_int_zeros:
  "foldl (\<lambda>n c. 10 * n + (int (of_char c) - 48)) m (replicate k CHR ''0'') = m * 10 ^ k"
  by (induction k arbitrary: m) simp_all

lemma digits_int_power_of_ten:
  "digits_int (CHR ''1'' # replicate k CHR ''0'') = Inr (10 ^ k)"
  by (simp add: digits_int_def digits_int_zeros list_all_iff)

lemma overflow_bound: "(2::int) ^ 1024 \<le> \<bar>10 ^ 400\<bar>"
proof -
  have "(2::int) ^ 1024 = (2 ^ 8) ^ 128" by (simp only: power_mult [symmetric]) simp
  also have "\<dots> \<le> (10 ^ 3) ^ 128" by (rule power_mono) simp_all
  also have "\<dots> = 10 ^ 384" by (simp only: power_mult [symmetric]) simp
  also have "\<dots> \<le> 10 ^ 400" by (rule power_increasing) simp_all
  finally have "(2::int) ^ 1024 \<le> 10 ^ 400" .
  moreover have "\<bar>(10::int) ^ 400\<bar> = 10 ^ 400" by (rule abs_of_nonneg) (rule zero_le_power, simp)
  ultimately show ?thesis by (simp only:)
qed

text \<open>
  C7. A cutoff that cannot be parsed as a timestamp does not always end in
  \<^verbatim>\<open>HTTPBadRequest\<close>. The digits of \<open>10 ^ 400\<close>, a 1 followed by 400 zeros, pass
  \<^verbatim>\<open>int\<close>; \<^verbatim>\<open>utcfromtimestamp\<close> then raises \<^verbatim>\<open>OverflowError\<close>, which the
  \<^verbatim>\<open>except (KeyError, ValueError)\<close> clause does not name, so the exception leaves the
  handler uncaught. The database is unchanged.
\<close>

theorem bulk_mark_overflow_uncaught:
  "digits_int (CHR ''1'' # replicate 400 CHR ''0'') = Inr (10 ^ 400) \<and>
   example_utcfromtimestamp (10 ^ 400) = Inl OverflowError \<and>
   entry_list_mark_post digits_int example_utcfromtimestamp 300
       [''before'' \<mapsto> CHR ''1'' # replicate 400 CHR ''0''] (Some 1) example_db
     = (example_db, Inl (Uncaught OverflowError)) \<and>
   entry_list_mark_post digits_int example_utcfromtimestamp 300
       [''before'' \<mapsto> CHR ''1'' # replicate 400 CHR ''0''] (Some 1) example_db
     \<noteq> (example_db, Inl HTTPBadRequest)"
proof -
  define v where "v = CHR ''1'' # replicate 400 CHR ''0''"
  define n :: int where "n = 10 ^ 400"
  have a: "digits_int v = Inr n"
    unfolding v_def n_def by (rule digits_int_power_of_ten)
  have "(2::int) ^ 1024 \<le> \<bar>n\<bar>" unfolding n_def by (rule overflow_bound)
  then have b: "example_utcfromtimestamp n = Inl OverflowError"
    by (simp only: example_utcfromtimestamp_def if_True)
  have p: "[''before'' \<mapsto> v] ''before'' = Some v" by simp
  have c: "entry_list_mark_post digits_int example_utcfromtimestamp 300 [''before'' \<mapsto> v]
      (Some 1) example_db = (example_db, Inl (Uncaught OverflowError))"
    using bulk_mark_uncaught [where POST = "[''before'' \<mapsto> v]" and v = v
        and py_int = digits_int and n = n and utcfromtimestamp = example_utcfromtimestamp
        and x = OverflowError and now = 300 and u = 1 and d = example_db] p a b
    by simp
  have e: "entry_list_mark_post digits_int example_utcfromtimestamp 300 [''before'' \<mapsto> v]
      (Some 1) example_db \<noteq> (example_db, Inl HTTPBadRequest)"
    unfolding c by simp
  from a b c e show ?thesis unfolding v_def n_def by (intro conjI)
qed

subsection \<open>The group filter with a missing group\<close>

lemma make_view_variables_missing_group:
  assumes "GET ''saved'' = None" "GET ''group'' = Some v" "py_int v = Inr g"
    "\<forall>x \<in> set (groups d). group_id x \<noteq> g"
  shows "make_view_variables py_int u GET d = Inl DoesNotExist"
proof -
  have "find (\<lambda>x. group_id x = g) (groups d) = None"
    using assms(4) by (simp add: find_None_iff)
  then show ?thesis using assms(1-3) by (simp add: make_view_variables_def Group_get_def)
qed

text \<open>
  C4. The example database has the groups 1 and 2. The entry list of user 1 asked with
  \<^verbatim>\<open>group=7\<close> does not answer \<^verbatim>\<open>HTTPNotFound\<close>: the \<^verbatim>\<open>DoesNotExist\<close> of
  \<^verbatim>\<open>Group.get\<close> leaves the handler uncaught, whereas \<^verbatim>\<open>entry\<close> and \<^verbatim>\<open>entry_post\<close>
  turn the \<^verbatim>\<open>DoesNotExist\<close> of their lookup into \<^verbatim>\<open>HTTPNotFound\<close>.
\<close>

theorem entry_list_missing_group:
  "entry_list digits_int [''group'' \<mapsto> ''7''] (Some 1) example_db
     = (example_db, Inl (Uncaught DoesNotExist))"
  by (simp add: entry_list_def login_required_def make_view_variables_def digits_int_def
      Group_get_def example_db_def)

subsection \<open>The bulk operation\<close>

lemma in_read_entries_of:
  "n \<in> set (read_entries_of d u) \<longleftrightarrow> (u, n) \<in> read_pairs d"
proof -
  have "(u, n) \<in> (\<lambda>r. (read_user r, read_entry r)) ` set (reads d) \<longleftrightarrow>
        (\<exists>r \<in> set (reads d). read_user r = u \<and> read_entry r = n)"
    unfolding image_iff by (simp add: eq_commute)
  moreover have "n \<in> read_entry ` {r \<in> set (reads d). read_user r = u} \<longleftrightarrow>
        (\<exists>r \<in> set (reads d). read_user r = u \<and> read_entry r = n)"
    by blast
  ultimately show ?thesis by (simp add: read_entries_of_def read_pairs_def)
qed

lemma in_saved_entries_of:
  "n \<in> set (saved_entries_of d u) \<longleftrightarrow> (u, n) \<in> saved_pairs d"
proof -
  have "(u, n) \<in> (\<lambda>r. (saved_user r, saved_entry r)) ` set (saveds d) \<longleftrightarrow>
        (\<exists>r \<in> set (saveds d). saved_user r = u \<and> saved_entry r = n)"
    unfolding image_iff by (simp add: eq_commute)
  moreover have "n \<in> saved_entry ` {r \<in> set (saveds d). saved_user r = u} \<longleftrightarrow>
        (\<exists>r \<in> set (saveds d). saved_user r = u \<and> saved_entry r = n)"
    by blast
  ultimately show ?thesis by (simp add: saved_entries_of_def saved_pairs_def)
qed

lemma read_pairs_append:
  "read_pairs (d\<lparr>reads := reads d @ new\<rparr>) =
     read_pairs d \<union> set (map (\<lambda>r. (read_user r, read_entry r)) new)"
  by (simp add: read_pairs_def)

lemma mem_mark_candidates:
  "e \<in> set (mark_candidates d u c) \<longleftrightarrow>
     e \<in> set (entries d) \<and>
     (\<exists>f \<in> set (feeds d). \<exists>s \<in> set (subscriptions d).
        entry_feed e = feed_id f \<and> subscription_feed s = feed_id f \<and>
        subscription_user s = u \<and> entry_id e \<notin> set (read_entries_of d u) \<and>
        sql_less (feed_last_checked_on f) c)"
  unfolding mark_candidates_def by (simp add: image_iff Bex_def) blast

lemma sql_less_iff: "sql_less t c \<longleftrightarrow> (\<exists>t'. t = Some t' \<and> t' < c)"
  by (cases t) (simp_all add: sql_less_def)

lemma mem_mark_candidates_spec:
  "e \<in> set (mark_candidates d u c) \<longleftrightarrow>
     e \<in> set (entries d) \<and> reachable d u e \<and> (u, entry_id e) \<notin> read_pairs d \<and>
     checked_before d e c"
proof
  assume "e \<in> set (mark_candidates d u c)"
  then obtain f s where h: "e \<in> set (entries d)" "f \<in> set (feeds d)" "s \<in> set (subscriptions d)"
    "entry_feed e = feed_id f" "subscription_feed s = feed_id f" "subscription_user s = u"
    "(u, entry_id e) \<notin> read_pairs d" "\<exists>t. feed_last_checked_on f = Some t \<and> t < c"
    unfolding mem_mark_candidates in_read_entries_of sql_less_iff by blast
  have "reachable d u e" unfolding reachable_def using h(3,4,5,6) by auto
  moreover have "checked_before d e c" unfolding checked_before_def using h(2,4,8) by auto
  ultimately show "e \<in> set (entries d) \<and> reachable d u e \<and> (u, entry_id e) \<notin> read_pairs d \<and>
     checked_before d e c" using h(1,7) by simp
next
  assume a: "e \<in> set (entries d) \<and> reachable d u e \<and> (u, entry_id e) \<notin> read_pairs d \<and>
     checked_before d e c"
  then obtain s where s: "s \<in> set (subscriptions d)" "subscription_user s = u"
    "subscription_feed s = entry_feed e" unfolding reachable_def by blast
  from a obtain f where f: "f \<in> set (feeds d)" "feed_id f = entry_feed e"
    "\<exists>t. feed_last_checked_on f = Some t \<and> t < c" unfolding checked_before_def by blast
  show "e \<in> set (mark_candidates d u c)"
    unfolding mem_mark_candidates in_read_entries_of sql_less_iff
    using a s f by (intro conjI bexI [of _ f] bexI [of _ s]) simp_all
qed

lemma set_mark_candidates:
  "set (mark_candidates d u c) =
     {e \<in> set (entries d). reachable d u e \<and> (u, entry_id e) \<notin> read_pairs d \<and>
        checked_before d e c}"
  unfolding set_eq_iff mem_mark_candidates_spec by simp

lemma mark_read_loop_result:
  "\<exists>new. mark_read_loop now u es d = Inr (d\<lparr>reads := reads d @ new\<rparr>) \<and>
     set (map (\<lambda>r. (read_user r, read_entry r)) new) =
       {(u, entry_id e) | e. e \<in> set es \<and> (u, entry_id e) \<notin> read_pairs d} \<and>
     distinct (map (\<lambda>r. (read_user r, read_entry r)) new) \<and>
     (\<forall>r \<in> set new. read_on r = now)"
proof (induction es arbitrary: d)
  case Nil
  have "mark_read_loop now u [] d = Inr (d\<lparr>reads := reads d @ []\<rparr>)" by simp
  then show ?case by (intro exI [of _ "[]"]) simp
next
  case (Cons e es)
  let ?key = "\<lambda>r. (read_user r, read_entry r)"
  let ?row = "\<lparr>read_user = u, read_entry = entry_id e, read_on = now\<rparr>"
  consider (dup) "Read_create now u e d = Inl IntegrityError" "(u, entry_id e) \<in> read_pairs d"
    | (new) "Read_create now u e d = Inr (d\<lparr>reads := reads d @ [?row]\<rparr>)"
        "(u, entry_id e) \<notin> read_pairs d"
    using Read_create_cases [of now u e d] by blast
  then show ?case
  proof cases
    case dup
    obtain new where n: "mark_read_loop now u es d = Inr (d\<lparr>reads := reads d @ new\<rparr>)"
      "set (map ?key new) = {(u, entry_id e') | e'. e' \<in> set es \<and> (u, entry_id e') \<notin> read_pairs d}"
      "distinct (map ?key new)" "\<forall>r \<in> set new. read_on r = now"
      using Cons.IH [of d] by blast
    have "set (map ?key new) =
        {(u, entry_id e') | e'. e' \<in> set (e # es) \<and> (u, entry_id e') \<notin> read_pairs d}"
      using n(2) dup(2) by auto
    with n dup(1) show ?thesis by (intro exI [of _ new]) simp
  next
    case new
    let ?d1 = "d\<lparr>reads := reads d @ [?row]\<rparr>"
    obtain new1 where n: "mark_read_loop now u es ?d1 = Inr (?d1\<lparr>reads := reads ?d1 @ new1\<rparr>)"
      "set (map ?key new1) = {(u, entry_id e') | e'. e' \<in> set es \<and> (u, entry_id e') \<notin> read_pairs ?d1}"
      "distinct (map ?key new1)" "\<forall>r \<in> set new1. read_on r = now"
      using Cons.IH [of ?d1] by blast
    have rp: "read_pairs ?d1 = insert (u, entry_id e) (read_pairs d)"
      by (simp add: read_pairs_def)
    have a: "mark_read_loop now u (e # es) d = Inr (d\<lparr>reads := reads d @ (?row # new1)\<rparr>)"
      using new(1) n(1) by simp
    have b: "set (map ?key (?row # new1)) =
        {(u, entry_id e') | e'. e' \<in> set (e # es) \<and> (u, entry_id e') \<notin> read_pairs d}"
      using n(2) new(2) unfolding rp by auto
    have c: "distinct (map ?key (?row # new1))"
      using n(2,3) unfolding rp by auto
    have e: "\<forall>r \<in> set (?row # new1). read_on r = now"
      using n(4) by simp
    from a b c e show ?thesis by (intro exI [of _ "?row # new1"]) blast
  qed
qed

lemma bulk_mark_effect:
  assumes "parse_before py_int utcfromtimestamp POST = Inr c"
  shows "\<exists>new. entry_list_mark_post py_int utcfromtimestamp now POST (Some u) d
        = (d\<lparr>reads := reads d @ new\<rparr>, Inr ()) \<and>
     set (map (\<lambda>r. (read_user r, read_entry r)) new) =
       {(u, entry_id e) | e. e \<in> set (entries d) \<and> reachable d u e \<and>
          (u, entry_id e) \<notin> read_pairs d \<and> checked_before d e c} \<and>
     distinct (map (\<lambda>r. (read_user r, read_entry r)) new)"
proof -
  let ?key = "\<lambda>r. (read_user r, read_entry r)"
  obtain new where n:
    "mark_read_loop now u (mark_candidates d u c) d = Inr (d\<lparr>reads := reads d @ new\<rparr>)"
    "set (map ?key new) =
       {(u, entry_id e) | e. e \<in> set (mark_candidates d u c) \<and> (u, entry_id e) \<notin> read_pairs d}"
    "distinct (map ?key new)"
    using mark_read_loop_result [of now u "mark_candidates d u c" d] by blast
  have a: "entry_list_mark_post py_int utcfromtimestamp now POST (Some u) d
        = (d\<lparr>reads := reads d @ new\<rparr>, Inr ())"
    using assms n(1) by (simp add: entry_list_mark_post_def login_required_def)
  have b: "set (map ?key new) =
       {(u, entry_id e) | e. e \<in> set (entries d) \<and> reachable d u e \<and>
          (u, entry_id e) \<notin> read_pairs d \<and> checked_before d e c}"
    unfolding n(2) set_mark_candidates by blast
  from a b n(3) show ?thesis by blast
qed

text \<open>
  C1. With a cutoff \<open>c\<close> that parses, the bulk operation of user \<open>u\<close> succeeds and only
  appends rows to Read. The pairs it adds are exactly \<open>(u, e)\<close> for the entries \<open>e\<close>
  that are reachable through a subscription of \<open>u\<close>, were not read by \<open>u\<close> and belong
  to a feed whose \<^verbatim>\<open>last_checked_on\<close> is strictly before \<open>c\<close>; so an entry of a feed
  checked at or after \<open>c\<close> is not marked, earlier rows stay, no pair is inserted twice
  and no \<^verbatim>\<open>IntegrityError\<close> reaches the caller.
\<close>

theorem bulk_mark_read:
  assumes "parse_before py_int utcfromtimestamp POST = Inr c"
  shows "\<exists>new. entry_list_mark_post py_int utcfromtimestamp now POST (Some u) d
        = (d\<lparr>reads := reads d @ new\<rparr>, Inr ()) \<and>
     read_pairs (d\<lparr>reads := reads d @ new\<rparr>) =
       read_pairs d \<union>
       {(u, entry_id e) | e. e \<in> set (entries d) \<and> reachable d u e \<and>
          (u, entry_id e) \<notin> read_pairs d \<and> checked_before d e c} \<and>
     distinct (map (\<lambda>r. (read_user r, read_entry r)) new) \<and>
     set (map (\<lambda>r. (read_user r, read_entry r)) new) \<inter> read_pairs d = {}"
proof -
  obtain new where n: "entry_list_mark_post py_int utcfromtimestamp now POST (Some u) d
        = (d\<lparr>reads := reads d @ new\<rparr>, Inr ())"
     "set (map (\<lambda>r. (read_user r, read_entry r)) new) =
       {(u, entry_id e) | e. e \<in> set (entries d) \<and> reachable d u e \<and>
          (u, entry_id e) \<notin> read_pairs d \<and> checked_before d e c}"
     "distinct (map (\<lambda>r. (read_user r, read_entry r)) new)"
    using bulk_mark_effect [OF assms, of now u d] by blast
  have "set (map (\<lambda>r. (read_user r, read_entry r)) new) \<inter> read_pairs d = {}"
    unfolding n(2) by blast
  moreover have "read_pairs (d\<lparr>reads := reads d @ new\<rparr>) =
       read_pairs d \<union>
       {(u, entry_id e) | e. e \<in> set (entries d) \<and> reachable d u e \<and>
          (u, entry_id e) \<notin> read_pairs d \<and> checked_before d e c}"
    unfolding read_pairs_append n(2) ..
  ultimately show ?thesis using n(1,3) by blast
qed

theorem bulk_mark_read_witness:
  "parse_before digits_int example_utcfromtimestamp [''before'' \<mapsto> ''150''] = Inr 150 \<and>
   entry_list_mark_post digits_int example_utcfromtimestamp 300 [''before'' \<mapsto> ''150'']
       (Some 1) example_db
     = (example_db\<lparr>reads := [\<lparr>read_user = 1, read_entry = 1, read_on = 50\<rparr>,
                               \<lparr>read_user = 1, read_entry = 2, read_on = 300\<rparr>]\<rparr>, Inr ()) \<and>
   mark_candidates example_db 1 150 = [example_entry2, example_entry2] \<and>
   (\<exists>new. entry_list_mark_post digits_int example_utcfromtimestamp 300 [''before'' \<mapsto> ''150'']
        (Some 1) example_db = (example_db\<lparr>reads := reads example_db @ new\<rparr>, Inr ()) \<and>
      read_pairs (example_db\<lparr>reads := reads example_db @ new\<rparr>) =
        read_pairs example_db \<union>
        {(1, entry_id e) | e. e \<in> set (entries example_db) \<and> reachable example_db 1 e \<and>
           (1, entry_id e) \<notin> read_pairs example_db \<and> checked_before example_db e 150})"
proof -
  have p: "parse_before digits_int example_utcfromtimestamp [''before'' \<mapsto> ''150''] = Inr 150"
    by (simp add: parse_before_def digits_int_def example_utcfromtimestamp_def)
  have c: "mark_candidates example_db 1 150 = [example_entry2, example_entry2]"
    by (simp add: mark_candidates_def example_db_def read_entries_of_def sql_less_def
        example_entry1_def example_entry2_def example_entry3_def example_entry4_def)
  have r: "entry_list_mark_post digits_int example_utcfromtimestamp 300 [''before'' \<mapsto> ''150'']
       (Some 1) example_db
     = (example_db\<lparr>reads := [\<lparr>read_user = 1, read_entry = 1, read_on = 50\<rparr>,
                               \<lparr>read_user = 1, read_entry = 2, read_on = 300\<rparr>]\<rparr>, Inr ())"
    by (simp add: entry_list_mark_post_def login_required_def p c Read_create_def)
      (simp add: example_db_def example_entry2_def)
  show ?thesis
    using bulk_mark_read [OF p, of 300 1 example_db] p c r by blast
qed

lemma never_checked_not_before:
  assumes "distinct (map feed_id (feeds d))" "f \<in> set (feeds d)" "feed_id f = entry_feed e"
    "feed_last_checked_on f = None"
  shows "\<not> checked_before d e c"
proof
  assume "checked_before d e c"
  then obtain f' t where f': "f' \<in> set (feeds d)" "feed_id f' = entry_feed e"
    "feed_last_checked_on f' = Some t"
    unfolding checked_before_def by blast
  have "inj_on feed_id (set (feeds d))" using assms(1) by (simp add: distinct_map)
  then have "f' = f" using f'(1,2) assms(2,3) by (simp add: inj_on_def)
  then show False using f'(3) assms(4) by simp
qed

text \<open>
  C9. An entry whose feed has a null \<^verbatim>\<open>last_checked_on\<close> keeps its Read membership,
  for every user, across every call of the bulk operation: whatever the cutoff, the
  request parameters and the session.
\<close>

theorem bulk_mark_skips_never_checked:
  assumes "pk_unique d" "e \<in> set (entries d)" "f \<in> set (feeds d)" "feed_id f = entry_feed e"
    "feed_last_checked_on f = None"
  shows "(u', entry_id e) \<in> read_pairs (fst (entry_list_mark_post py_int utcfromtimestamp now POST su d))
     \<longleftrightarrow> (u', entry_id e) \<in> read_pairs d"
proof (cases su)
  case None
  then show ?thesis by (simp add: entry_list_mark_post_def login_required_def)
next
  case (Some u)
  show ?thesis
  proof (cases "parse_before py_int utcfromtimestamp POST")
    case (Inl err)
    then show ?thesis using Some by (simp add: entry_list_mark_post_def login_required_def)
  next
    case (Inr c)
    obtain new where n: "entry_list_mark_post py_int utcfromtimestamp now POST (Some u) d
          = (d\<lparr>reads := reads d @ new\<rparr>, Inr ())"
      "set (map (\<lambda>r. (read_user r, read_entry r)) new) =
         {(u, entry_id e') | e'. e' \<in> set (entries d) \<and> reachable d u e' \<and>
            (u, entry_id e') \<notin> read_pairs d \<and> checked_before d e' c}"
      using bulk_mark_effect [OF Inr, of now u d] by blast
    have inj: "inj_on entry_id (set (entries d))"
      using assms(1) by (simp add: pk_unique_def distinct_map)
    have nb: "\<not> checked_before d e c"
      using never_checked_not_before [OF _ assms(3,4,5)] assms(1) by (simp add: pk_unique_def)
    have "(u', entry_id e) \<notin> set (map (\<lambda>r. (read_user r, read_entry r)) new)"
    proof
      assume "(u', entry_id e) \<in> set (map (\<lambda>r. (read_user r, read_entry r)) new)"
      then obtain e' where e': "e' \<in> set (entries d)" "entry_id e' = entry_id e"
        "checked_before d e' c" unfolding n(2) by simp metis
      have "e' = e" using inj e'(1,2) assms(2) by (simp add: inj_on_def)
      then show False using e'(3) nb by simp
    qed
    then show ?thesis using Some n(1) by (simp add: read_pairs_append)
  qed
qed

theorem bulk_mark_skips_never_checked_witness:
  "pk_unique example_db \<and> example_entry4 \<in> set (entries example_db) \<and>
   (\<exists>f \<in> set (feeds example_db). feed_id f = entry_feed example_entry4 \<and>
      feed_last_checked_on f = None) \<and>
   (1, entry_id example_entry4) \<notin> read_pairs example_db \<and>
   (1, entry_id example_entry4) \<notin> read_pairs (fst (entry_list_mark_post digits_int
      example_utcfromtimestamp 300 [''before'' \<mapsto> ''1000''] (Some 1) example_db))"
proof -
  let ?f = "\<lparr>feed_id = 3, feed_icon = 1, feed_title = None, feed_last_checked_on = None\<rparr>"
  have a: "pk_unique example_db"
    by (simp add: pk_unique_def example_db_def example_entry1_def example_entry2_def
        example_entry3_def example_entry4_def)
  have b: "example_entry4 \<in> set (entries example_db)" by (simp add: example_db_def)
  have c: "?f \<in> set (feeds example_db)" by (simp add: example_db_def)
  have d: "feed_id ?f = entry_feed example_entry4" by (simp add: example_entry4_def)
  have e: "feed_last_checked_on ?f = None" by simp
  have g: "(1, entry_id example_entry4) \<notin> read_pairs example_db"
    by (simp add: read_pairs_def example_db_def example_entry4_def)
  show ?thesis
    using bulk_mark_skips_never_checked [OF a b c d e, of 1 digits_int example_utcfromtimestamp 300
        "[''before'' \<mapsto> ''1000'']" "Some 1"] a b c d e g
    by blast
qed


subsection \<open>Viewing one entry\<close>

lemma mark_entry_read_effect:
  "mark_entry now u e ''read'' d =
     Inr (if (u, entry_id e) \<in> read_pairs d then d
          else d\<lparr>reads := reads d @ [\<lparr>read_user = u, read_entry = entry_id e, read_on = now\<rparr>]\<rparr>)"
  using Read_create_cases [of now u e d] by (auto simp: mark_entry_read)

text \<open>
  C10. Viewing an existing entry writes: \<^verbatim>\<open>GET /entries/<id>\<close> by a logged-in user
  leaves the pair (user, entry) in Read, by appending one row when it was absent and
  leaving the database as it was when it was present. The insert comes before the view
  variables are built, so it also stays when those raise; the handler then either
  answers with the page of that entry or fails with the uncaught exception of
  \<^verbatim>\<open>_make_view_variables\<close>.
\<close>

theorem entry_view_marks_read:
  assumes "Entry_get d n = Inr e"
  shows "\<exists>d' r. entry py_int now GET n (Some u) d = (d', r) \<and>
     d' = (if (u, entry_id e) \<in> read_pairs d then d
           else d\<lparr>reads := reads d @ [\<lparr>read_user = u, read_entry = entry_id e, read_on = now\<rparr>]\<rparr>) \<and>
     (u, entry_id e) \<in> read_pairs d' \<and>
     (case r of Inl err \<Rightarrow> \<exists>x. err = Uncaught x \<and> make_view_variables py_int u GET d' = Inl x
      | Inr page \<Rightarrow> ep_entry page = e)"
proof -
  let ?d' = "if (u, entry_id e) \<in> read_pairs d then d
           else d\<lparr>reads := reads d @ [\<lparr>read_user = u, read_entry = entry_id e, read_on = now\<rparr>]\<rparr>"
  have m: "mark_entry now u e ''read'' d = Inr ?d'" by (rule mark_entry_read_effect)
  have r: "(u, entry_id e) \<in> read_pairs ?d'" by (simp add: read_pairs_def)
  show ?thesis
  proof (cases "make_view_variables py_int u GET ?d'")
    case (Inl x)
    have "entry py_int now GET n (Some u) d = (?d', Inl (Uncaught x))"
      unfolding entry_def login_required_def using assms m Inl by simp
    then show ?thesis using r Inl by simp
  next
    case (Inr qn)
    obtain q ns where qn: "qn = (q, ns)" by (cases qn)
    have "\<exists>page. entry py_int now GET n (Some u) d = (?d', Inr page) \<and> ep_entry page = e"
      unfolding entry_def login_required_def using assms m Inr qn by simp
    then show ?thesis using r by auto
  qed
qed

theorem entry_view_marks_read_witness:
  "Entry_get example_db 3 = Inr example_entry3 \<and>
   (1, 3) \<notin> read_pairs example_db \<and>
   (\<exists>r. entry digits_int 60 Map.empty 3 (Some 1) example_db =
      (example_db\<lparr>reads := [\<lparr>read_user = 1, read_entry = 1, read_on = 50\<rparr>,
                               \<lparr>read_user = 1, read_entry = 3, read_on = 60\<rparr>]\<rparr>, r)) \<and>
   Entry_get example_db 1 = Inr example_entry1 \<and>
   (1, 1) \<in> read_pairs example_db \<and>
   (\<exists>r. entry digits_int 60 Map.empty 1 (Some 1) example_db = (example_db, r))"
proof -
  have a: "Entry_get example_db 3 = Inr example_entry3"
    by (simp add: Entry_get_def example_db_def example_entry1_def example_entry2_def
      example_entry3_def)
  have b: "Entry_get example_db 1 = Inr example_entry1"
    by (simp add: Entry_get_def example_db_def example_entry1_def)
  have c: "(1, 3) \<notin> read_pairs example_db" "(1, 1) \<in> read_pairs example_db"
    by (simp_all add: read_pairs_def example_db_def)
  have d: "reads example_db = [\<lparr>read_user = 1, read_entry = 1, read_on = 50\<rparr>]"
    by (simp add: example_db_def)
  have e: "entry_id example_entry3 = 3" "entry_id example_entry1 = 1"
    by (simp_all add: example_entry3_def example_entry1_def)
  show ?thesis
    using entry_view_marks_read [OF a, of digits_int 60 Map.empty 1]
      entry_view_marks_read [OF b, of digits_int 60 Map.empty 1] a b c d e
    by auto
qed

subsection \<open>The view queries\<close>

lemma mem_joined_rows:
  "(e, f, i, s) \<in> set (joined_rows d) \<longleftrightarrow>
     e \<in> set (entries d) \<and> f \<in> set (feeds d) \<and> i \<in> set (icons d) \<and>
     s \<in> set (subscriptions d) \<and> entry_feed e = feed_id f \<and> feed_icon f = icon_id i \<and>
     subscription_feed s = feed_id f"
  unfolding joined_rows_def by simp

lemma distinct_joined_rows:
  assumes "pk_unique d"
  shows "distinct (joined_rows d)"
proof -
  have "distinct (entries d)" "distinct (feeds d)" "distinct (icons d)" "distinct (subscriptions d)"
    using assms unfolding pk_unique_def by (simp_all add: distinct_map)
  then show ?thesis unfolding joined_rows_def by (intro distinct_filter distinct_product)
qed

lemma joined_rows_same_entry:
  assumes "pk_unique d" "(e, f, i, s) \<in> set (joined_rows d)" "(e', f', i', s') \<in> set (joined_rows d)"
    "entry_id e = entry_id e'"
  shows "e = e' \<and> f = f' \<and> i = i'"
proof -
  have inj: "inj_on entry_id (set (entries d))" "inj_on feed_id (set (feeds d))"
    "inj_on icon_id (set (icons d))"
    using assms(1) unfolding pk_unique_def by (simp_all add: distinct_map)
  have a: "e \<in> set (entries d)" "f \<in> set (feeds d)" "i \<in> set (icons d)"
    "entry_feed e = feed_id f" "feed_icon f = icon_id i"
    using assms(2) unfolding mem_joined_rows by simp_all
  have b: "e' \<in> set (entries d)" "f' \<in> set (feeds d)" "i' \<in> set (icons d)"
    "entry_feed e' = feed_id f'" "feed_icon f' = icon_id i'"
    using assms(3) unfolding mem_joined_rows by simp_all
  have 1: "e = e'" using inj(1) a(1) b(1) assms(4) by (simp add: inj_on_def)
  then have "feed_id f = feed_id f'" using a(4) b(4) by simp
  then have 2: "f = f'" using inj(2) a(2) b(2) by (simp add: inj_on_def)
  then have "icon_id i = icon_id i'" using a(5) b(5) by simp
  then have 3: "i = i'" using inj(3) a(3) b(3) by (simp add: inj_on_def)
  from 1 2 3 show ?thesis by simp
qed

lemma joined_rows_same_group:
  assumes "pk_unique d" "subscription_unique d"
    "(e, f, i, s) \<in> set (joined_rows d)" "(e', f', i', s') \<in> set (joined_rows d)"
    "entry_id e = entry_id e'"
    "subscription_user s = subscription_user s'" "subscription_group s = subscription_group s'"
  shows "(e, f, i, s) = (e', f', i', s')"
proof -
  have efi: "e = e' \<and> f = f' \<and> i = i'"
    using joined_rows_same_entry [OF assms(1,3,4,5)] .
  have inj: "inj_on (\<lambda>s. (subscription_user s, subscription_group s, subscription_feed s))
      (set (subscriptions d))"
    using assms(2) unfolding subscription_unique_def by (simp add: distinct_map)
  have a: "s \<in> set (subscriptions d)" "subscription_feed s = feed_id f"
    using assms(3) unfolding mem_joined_rows by simp_all
  have b: "s' \<in> set (subscriptions d)" "subscription_feed s' = feed_id f'"
    using assms(4) unfolding mem_joined_rows by simp_all
  have "subscription_feed s = subscription_feed s'" using a(2) b(2) efi by simp
  then have "s = s'" using inj a(1) b(1) assms(6,7) by (simp add: inj_on_def)
  then show ?thesis using efi by simp
qed

text \<open>What the five views run, clause by clause.\<close>

lemma execute_get_unread_entries:
  "execute d (get_unread_entries u sel) =
     remdups (map sel (filter (\<lambda>(e, f, i, s). subscription_user s = u \<and>
        entry_id e \<notin> set (read_entries_of d u)) (joined_rows d)))"
  by (simp add: execute_def get_unread_entries_def distinct_clause_def where_clause_def base_q_def)

lemma execute_get_saved_entries:
  "execute d (get_saved_entries u sel) =
     remdups (map sel (filter (\<lambda>(e, f, i, s). subscription_user s = u \<and>
        entry_id e \<in> set (saved_entries_of d u)) (joined_rows d)))"
  by (simp add: execute_def get_saved_entries_def distinct_clause_def where_clause_def base_q_def)

lemma execute_get_all_entries:
  "execute d (get_all_entries u sel) =
     remdups (map sel (filter (\<lambda>(e, f, i, s). subscription_user s = u) (joined_rows d)))"
  by (simp add: execute_def get_all_entries_def distinct_clause_def where_clause_def base_q_def)

lemma execute_get_group_entries:
  "execute d (get_group_entries u g sel) =
     map sel (filter (\<lambda>(e, f, i, s). subscription_user s = u \<and>
        subscription_group s = group_id g) (joined_rows d))"
  by (simp add: execute_def get_group_entries_def where_clause_def base_q_def)

lemma execute_get_feed_entries:
  "execute d (get_feed_entries u fd sel) =
     remdups (map sel (filter (\<lambda>(e, f, i, s). subscription_user s = u \<and>
        subscription_feed s = feed_id fd) (joined_rows d)))"
  by (simp add: execute_def get_feed_entries_def distinct_clause_def where_clause_def base_q_def)

lemma map_id_select_default:
  "map (entry_id \<circ> fst) (map select_default rows) = map select_Entry_id rows"
  by (simp add: select_default_def select_Entry_id_def split_def)

lemma inj_on_entry_id_select_default:
  assumes "pk_unique d"
  shows "inj_on (entry_id \<circ> fst) (select_default ` {r \<in> set (joined_rows d). P r})"
proof (rule inj_onI)
  fix a b
  assume a: "a \<in> select_default ` {r \<in> set (joined_rows d). P r}"
    and b: "b \<in> select_default ` {r \<in> set (joined_rows d). P r}"
    and eq: "(entry_id \<circ> fst) a = (entry_id \<circ> fst) b"
  from a obtain e f i s where r1: "(e, f, i, s) \<in> set (joined_rows d)" "a = (e, f, i)"
    by (auto simp: select_default_def)
  from b obtain e' f' i' s' where r2: "(e', f', i', s') \<in> set (joined_rows d)" "b = (e', f', i')"
    by (auto simp: select_default_def)
  have "entry_id e = entry_id e'" using eq r1(2) r2(2) by simp
  then show "a = b" using joined_rows_same_entry [OF assms r1(1) r2(1)] r1(2) r2(2) by simp
qed

lemma distinct_ids_remdups_default:
  assumes "pk_unique d"
  shows "distinct (map (entry_id \<circ> fst) (remdups (map select_default (filter P (joined_rows d)))))"
proof -
  have "set (remdups (map select_default (filter P (joined_rows d)))) =
      select_default ` {r \<in> set (joined_rows d). P r}" by simp
  then show ?thesis
    using inj_on_entry_id_select_default [OF assms, of P] by (simp add: distinct_map)
qed

lemma distinct_ids_group:
  assumes "pk_unique d" "subscription_unique d"
  shows "distinct (map select_Entry_id (filter (\<lambda>(e, f, i, s). subscription_user s = u \<and>
        subscription_group s = g) (joined_rows d)))"
proof -
  let ?P = "\<lambda>(e, f, i, s). subscription_user s = u \<and> subscription_group s = g"
  have "inj_on select_Entry_id {r \<in> set (joined_rows d). ?P r}"
  proof (rule inj_onI)
    fix a b
    assume a: "a \<in> {r \<in> set (joined_rows d). ?P r}" and b: "b \<in> {r \<in> set (joined_rows d). ?P r}"
      and eq: "select_Entry_id a = select_Entry_id b"
    obtain e f i s where ra: "a = (e, f, i, s)" by (cases a)
    obtain e' f' i' s' where rb: "b = (e', f', i', s')" by (cases b)
    have 1: "(e, f, i, s) \<in> set (joined_rows d)" "subscription_user s = u" "subscription_group s = g"
      using a ra by simp_all
    have 2: "(e', f', i', s') \<in> set (joined_rows d)" "subscription_user s' = u"
      "subscription_group s' = g"
      using b rb by simp_all
    have 3: "entry_id e = entry_id e'" using eq ra rb by (simp add: select_Entry_id_def)
    show "a = b"
      using joined_rows_same_group [OF assms 1(1) 2(1) 3] 1(2,3) 2(2,3) ra rb by simp
  qed
  then show ?thesis
    using distinct_joined_rows [OF assms(1)] by (simp add: distinct_map)
qed

text \<open>
  C2. On a database that satisfies the unique constraints of the schema, each of the five
  view queries returns every entry identifier at most once, with the select list
  \<^verbatim>\<open>Entry.id\<close> used for counting and with the default select list used for the page.
  For the group view, which has no \<^verbatim>\<open>DISTINCT\<close>, this rests on the unique index on
  (user, group, feed): within one group a user reaches a feed through one subscription.
\<close>

theorem view_queries_duplicate_free:
  assumes "pk_unique d" "subscription_unique d"
  shows "distinct (execute d (get_unread_entries u select_Entry_id)) \<and>
    distinct (map (entry_id \<circ> fst) (execute d (get_unread_entries u select_default))) \<and>
    distinct (execute d (get_saved_entries u select_Entry_id)) \<and>
    distinct (map (entry_id \<circ> fst) (execute d (get_saved_entries u select_default))) \<and>
    distinct (execute d (get_all_entries u select_Entry_id)) \<and>
    distinct (map (entry_id \<circ> fst) (execute d (get_all_entries u select_default))) \<and>
    distinct (execute d (get_group_entries u g select_Entry_id)) \<and>
    distinct (map (entry_id \<circ> fst) (execute d (get_group_entries u g select_default))) \<and>
    distinct (execute d (get_feed_entries u fd select_Entry_id)) \<and>
    distinct (map (entry_id \<circ> fst) (execute d (get_feed_entries u fd select_default)))"
proof -
  have g1: "distinct (execute d (get_group_entries u g select_Entry_id))"
    unfolding execute_get_group_entries by (rule distinct_ids_group [OF assms])
  have g2: "distinct (map (entry_id \<circ> fst) (execute d (get_group_entries u g select_default)))"
    unfolding execute_get_group_entries map_id_select_default
    by (rule distinct_ids_group [OF assms])
  show ?thesis
    using g1 g2
    by (simp only: execute_get_unread_entries execute_get_saved_entries execute_get_all_entries
        execute_get_feed_entries distinct_remdups distinct_ids_remdups_default [OF assms(1)]
        simp_thms)
qed

theorem view_queries_duplicate_free_witness:
  "pk_unique example_db \<and> subscription_unique example_db \<and>
   map select_Entry_id (filter (\<lambda>(e, f, i, s). subscription_user s = 1) (joined_rows example_db))
     = [1, 1, 2, 2, 3, 4] \<and>
   execute example_db (get_all_entries 1 select_Entry_id) = [1, 2, 3, 4] \<and>
   execute example_db (get_group_entries 1 \<lparr>group_id = 1, group_title = ''Default''\<rparr> select_Entry_id)
     = [1, 2, 3, 4] \<and>
   distinct (map (entry_id \<circ> fst) (execute example_db (get_all_entries 1 select_default))) \<and>
   distinct (map (entry_id \<circ> fst) (execute example_db
      (get_group_entries 1 \<lparr>group_id = 1, group_title = ''Default''\<rparr> select_default)))"
proof -
  have a: "pk_unique example_db"
    by (simp add: pk_unique_def example_db_def example_entry1_def example_entry2_def
        example_entry3_def example_entry4_def)
  have b: "subscription_unique example_db"
    by (simp add: subscription_unique_def example_db_def)
  have c: "map select_Entry_id (filter (\<lambda>(e, f, i, s). subscription_user s = 1)
      (joined_rows example_db)) = [1, 1, 2, 2, 3, 4]"
    by (simp add: joined_rows_def select_Entry_id_def example_db_def example_entry1_def
        example_entry2_def example_entry3_def example_entry4_def)
  have d: "execute example_db (get_all_entries 1 select_Entry_id) = [1, 2, 3, 4]"
    unfolding execute_get_all_entries c by simp
  have e: "execute example_db (get_group_entries 1 \<lparr>group_id = 1, group_title = ''Default''\<rparr>
      select_Entry_id) = [1, 2, 3, 4]"
    unfolding execute_get_group_entries
    by (simp add: joined_rows_def select_Entry_id_def example_db_def example_entry1_def
        example_entry2_def example_entry3_def example_entry4_def)
  show ?thesis
    using view_queries_duplicate_free [OF a b, of 1 "\<lparr>group_id = 1, group_title = ''Default''\<rparr>"]
      a b c d e
    by simp
qed

subsection \<open>The Unread view\<close>

lemma joined_rows_reads_update [simp]: "joined_rows (d\<lparr>reads := x\<rparr>) = joined_rows d"
  by (simp add: joined_rows_def)

lemma reachable_reads_update [simp]: "reachable (d\<lparr>reads := x\<rparr>) u e = reachable d u e"
  by (simp add: reachable_def)

lemma fk_ok_reads_update [simp]: "fk_ok (d\<lparr>reads := x\<rparr>) = fk_ok d"
  by (simp add: fk_ok_def)

lemma reachable_joined:
  assumes "fk_ok d" "e \<in> set (entries d)" "reachable d u e"
  shows "\<exists>f i s. (e, f, i, s) \<in> set (joined_rows d) \<and> subscription_user s = u"
proof -
  obtain s where s: "s \<in> set (subscriptions d)" "subscription_user s = u"
    "subscription_feed s = entry_feed e"
    using assms(3) unfolding reachable_def by blast
  have "entry_feed e \<in> feed_id ` set (feeds d)"
    using assms(1,2) unfolding fk_ok_def by blast
  then obtain f where f: "f \<in> set (feeds d)" "feed_id f = entry_feed e"
    by (metis imageE)
  have "feed_icon f \<in> icon_id ` set (icons d)"
    using assms(1) f(1) unfolding fk_ok_def by blast
  then obtain i where i: "i \<in> set (icons d)" "icon_id i = feed_icon f"
    by (metis imageE)
  have "(e, f, i, s) \<in> set (joined_rows d)"
    unfolding mem_joined_rows using assms(2) s f i by simp
  then show ?thesis using s(2) by blast
qed

lemma joined_reachable:
  assumes "(e, f, i, s) \<in> set (joined_rows d)" "subscription_user s = u"
  shows "e \<in> set (entries d) \<and> reachable d u e"
proof -
  have "e \<in> set (entries d)" "s \<in> set (subscriptions d)" "subscription_feed s = entry_feed e"
    using assms(1) unfolding mem_joined_rows by simp_all
  then show ?thesis using assms(2) unfolding reachable_def by blast
qed

lemma set_unread_default:
  "set (execute d (get_unread_entries u select_default)) =
     {(e, f, i) | e f i s. (e, f, i, s) \<in> set (joined_rows d) \<and> subscription_user s = u \<and>
        (u, entry_id e) \<notin> read_pairs d}"
  unfolding execute_get_unread_entries in_read_entries_of
  by (auto simp: select_default_def image_iff)

lemma set_unread_ids:
  "set (execute d (get_unread_entries u select_Entry_id)) =
     {entry_id e | e f i s. (e, f, i, s) \<in> set (joined_rows d) \<and> subscription_user s = u \<and>
        (u, entry_id e) \<notin> read_pairs d}"
  unfolding execute_get_unread_entries in_read_entries_of
  by (auto simp: select_Entry_id_def image_iff) blast

lemma unread_entries_spec:
  assumes "fk_ok d"
  shows "fst ` set (execute d (get_unread_entries u select_default)) =
     {e \<in> set (entries d). reachable d u e \<and> (u, entry_id e) \<notin> read_pairs d}"
proof (rule set_eqI, rule iffI)
  fix e
  assume "e \<in> fst ` set (execute d (get_unread_entries u select_default))"
  then obtain f i s where "(e, f, i, s) \<in> set (joined_rows d)" "subscription_user s = u"
    "(u, entry_id e) \<notin> read_pairs d"
    unfolding set_unread_default by auto
  then show "e \<in> {e \<in> set (entries d). reachable d u e \<and> (u, entry_id e) \<notin> read_pairs d}"
    using joined_reachable by blast
next
  fix e
  assume a: "e \<in> {e \<in> set (entries d). reachable d u e \<and> (u, entry_id e) \<notin> read_pairs d}"
  then obtain f i s where j: "(e, f, i, s) \<in> set (joined_rows d)" "subscription_user s = u"
    using reachable_joined [OF assms, of e u] by blast
  have "(e, f, i) \<in> set (execute d (get_unread_entries u select_default))"
    unfolding set_unread_default using j a by blast
  then show "e \<in> fst ` set (execute d (get_unread_entries u select_default))"
    by (metis fst_conv imageI)
qed

lemma unread_ids_spec:
  assumes "fk_ok d"
  shows "set (execute d (get_unread_entries u select_Entry_id)) =
     entry_id ` {e \<in> set (entries d). reachable d u e \<and> (u, entry_id e) \<notin> read_pairs d}"
proof -
  have "set (execute d (get_unread_entries u select_Entry_id)) =
      (entry_id \<circ> fst) ` set (execute d (get_unread_entries u select_default))"
    unfolding execute_get_unread_entries
    by (simp add: image_image select_default_def select_Entry_id_def split_def)
  also have "\<dots> = entry_id ` fst ` set (execute d (get_unread_entries u select_default))"
    by (simp add: image_comp)
  finally show ?thesis unfolding unread_entries_spec [OF assms] .
qed

lemma mark_entry_unread_effect:
  "mark_entry now u e ''unread'' d =
     Inr (d\<lparr>reads := filter (\<lambda>r. \<not> (read_user r = u \<and> read_entry r = entry_id e)) (reads d)\<rparr>)"
  by (simp add: mark_entry_unread Read_delete_def)

lemma read_pairs_after_unread:
  "(u, entry_id e) \<notin> read_pairs
     (d\<lparr>reads := filter (\<lambda>r. \<not> (read_user r = u \<and> read_entry r = entry_id e)) (reads d)\<rparr>)"
  by (auto simp: read_pairs_def)

lemma read_pairs_after_read:
  "(u, entry_id e) \<in> read_pairs (if (u, entry_id e) \<in> read_pairs d then d
     else d\<lparr>reads := reads d @ [\<lparr>read_user = u, read_entry = entry_id e, read_on = now\<rparr>]\<rparr>)"
  by (simp add: read_pairs_def)

lemma unread_after_read_unread:
  assumes "fk_ok d" "e \<in> set (entries d)" "reachable d u e"
  shows "\<exists>d1 d2. mark_entry now u e ''read'' d = Inr d1 \<and>
     e \<notin> fst ` set (execute d1 (get_unread_entries u select_default)) \<and>
     entry_id e \<notin> set (execute d1 (get_unread_entries u select_Entry_id)) \<and>
     mark_entry now' u e ''unread'' d1 = Inr d2 \<and>
     e \<in> fst ` set (execute d2 (get_unread_entries u select_default)) \<and>
     entry_id e \<in> set (execute d2 (get_unread_entries u select_Entry_id))"
proof -
  let ?d1 = "if (u, entry_id e) \<in> read_pairs d then d
     else d\<lparr>reads := reads d @ [\<lparr>read_user = u, read_entry = entry_id e, read_on = now\<rparr>]\<rparr>"
  let ?d2 = "?d1\<lparr>reads := filter (\<lambda>r. \<not> (read_user r = u \<and> read_entry r = entry_id e))
     (reads ?d1)\<rparr>"
  have m1: "mark_entry now u e ''read'' d = Inr ?d1" by (rule mark_entry_read_effect)
  have m2: "mark_entry now' u e ''unread'' ?d1 = Inr ?d2" by (rule mark_entry_unread_effect)
  have k1: "fk_ok ?d1" "e \<in> set (entries ?d1)" "reachable ?d1 u e"
    using assms by simp_all
  have k2: "fk_ok ?d2" "e \<in> set (entries ?d2)" "reachable ?d2 u e"
    using k1 by simp_all
  have r1: "(u, entry_id e) \<in> read_pairs ?d1" by (rule read_pairs_after_read)
  have r2: "(u, entry_id e) \<notin> read_pairs ?d2" by (rule read_pairs_after_unread)
  have a: "e \<notin> fst ` set (execute ?d1 (get_unread_entries u select_default))"
    unfolding unread_entries_spec [OF k1(1)] using r1 by simp
  have b: "entry_id e \<notin> set (execute ?d1 (get_unread_entries u select_Entry_id))"
    unfolding unread_ids_spec [OF k1(1)] using r1 by auto
  have c: "e \<in> fst ` set (execute ?d2 (get_unread_entries u select_default))"
    unfolding unread_entries_spec [OF k2(1)] using r2 k2(2,3) by simp
  have e: "entry_id e \<in> set (execute ?d2 (get_unread_entries u select_Entry_id))"
    unfolding unread_ids_spec [OF k2(1)] using r2 k2(2,3) by blast
  from m1 m2 a b c e show ?thesis by blast
qed

text \<open>
  C5. On a database whose foreign keys point to existing rows, the Unread view of user
  \<open>u\<close> holds exactly the entries that are reachable through a subscription of \<open>u\<close> and
  whose identifier is not in Read for \<open>u\<close>. For such a reachable entry, marking it read
  takes it out of the view and marking it unread afterwards brings it back.
\<close>

theorem unread_view:
  assumes "fk_ok d"
  shows "fst ` set (execute d (get_unread_entries u select_default)) =
      {e \<in> set (entries d). reachable d u e \<and> (u, entry_id e) \<notin> read_pairs d} \<and>
    set (execute d (get_unread_entries u select_Entry_id)) =
      entry_id ` {e \<in> set (entries d). reachable d u e \<and> (u, entry_id e) \<notin> read_pairs d} \<and>
    (\<forall>e \<in> set (entries d). reachable d u e \<longrightarrow>
      (\<exists>d1 d2. mark_entry now u e ''read'' d = Inr d1 \<and>
         e \<notin> fst ` set (execute d1 (get_unread_entries u select_default)) \<and>
         entry_id e \<notin> set (execute d1 (get_unread_entries u select_Entry_id)) \<and>
         mark_entry now' u e ''unread'' d1 = Inr d2 \<and>
         e \<in> fst ` set (execute d2 (get_unread_entries u select_default)) \<and>
         entry_id e \<in> set (execute d2 (get_unread_entries u select_Entry_id))))"
  using unread_entries_spec [OF assms, of u] unread_ids_spec [OF assms, of u]
    unread_after_read_unread [OF assms, of _ u now now']
  by blast

theorem unread_view_witness:
  "fk_ok example_db \<and>
   execute example_db (get_unread_entries 1 select_Entry_id) = [2, 3, 4] \<and>
   set (execute example_db (get_unread_entries 1 select_Entry_id)) =
     entry_id ` {e \<in> set (entries example_db). reachable example_db 1 e \<and>
        (1, entry_id e) \<notin> read_pairs example_db} \<and>
   example_entry2 \<in> set (entries example_db) \<and> reachable example_db 1 example_entry2 \<and>
   (\<exists>d1 d2. mark_entry 60 1 example_entry2 ''read'' example_db = Inr d1 \<and>
      entry_id example_entry2 \<notin> set (execute d1 (get_unread_entries 1 select_Entry_id)) \<and>
      mark_entry 70 1 example_entry2 ''unread'' d1 = Inr d2 \<and>
      entry_id example_entry2 \<in> set (execute d2 (get_unread_entries 1 select_Entry_id)))"
proof -
  have a: "fk_ok example_db"
    by (simp add: fk_ok_def example_db_def example_entry1_def example_entry2_def
        example_entry3_def example_entry4_def)
  have b: "execute example_db (get_unread_entries 1 select_Entry_id) = [2, 3, 4]"
    unfolding execute_get_unread_entries
    by (simp add: joined_rows_def select_Entry_id_def read_entries_of_def example_db_def
        example_entry1_def example_entry2_def example_entry3_def example_entry4_def)
  have c: "example_entry2 \<in> set (entries example_db)" by (simp add: example_db_def)
  have d: "reachable example_db 1 example_entry2"
    by (simp add: reachable_def example_db_def example_entry2_def)
  note t = unread_view [OF a, of 1 60 70]
  note t2 = t [THEN conjunct2, THEN conjunct1]
  note t3 = t [THEN conjunct2, THEN conjunct2, rule_format, OF c d]
  from t3 have e: "\<exists>d1 d2. mark_entry 60 1 example_entry2 ''read'' example_db = Inr d1 \<and>
      entry_id example_entry2 \<notin> set (execute d1 (get_unread_entries 1 select_Entry_id)) \<and>
      mark_entry 70 1 example_entry2 ''unread'' d1 = Inr d2 \<and>
      entry_id example_entry2 \<in> set (execute d2 (get_unread_entries 1 select_Entry_id))"
    by blast
  from a b t2 c d e show ?thesis by (intro conjI)
qed

subsection \<open>Pages and the feed view\<close>

lemma unpaged_views:
  "unpaged (get_unread_entries u sel)" "unpaged (get_saved_entries u sel)"
  "unpaged (get_all_entries u sel)" "unpaged (get_group_entries u g sel)"
  "unpaged (get_feed_entries u fd sel)"
  by (simp_all add: unpaged_def get_unread_entries_def get_saved_entries_def get_all_entries_def
      get_group_entries_def get_feed_entries_def distinct_clause_def where_clause_def base_q_def)

lemma execute_unpaged:
  assumes "unpaged q"
  shows "execute d q =
    (if q_distinct q then remdups (map (q_select q) (filter (q_where q d) (joined_rows d)))
     else map (q_select q) (filter (q_where q d) (joined_rows d)))"
  using assms by (simp add: unpaged_def execute_def)

lemma execute_ordered:
  assumes "unpaged q"
  shows "execute d (order_by_last_updated_on_desc q) =
    (if q_distinct q
     then remdups (map (q_select q)
       (sort_key (\<lambda>r. - entry_last_updated_on (fst r)) (filter (q_where q d) (joined_rows d))))
     else map (q_select q)
       (sort_key (\<lambda>r. - entry_last_updated_on (fst r)) (filter (q_where q d) (joined_rows d))))"
  using assms by (simp add: unpaged_def execute_def order_by_last_updated_on_desc_def)

lemma execute_page:
  assumes "unpaged q"
  shows "execute d (limit_clause n (offset_clause k (order_by_last_updated_on_desc q))) =
    take n (drop (nat k) (execute d (order_by_last_updated_on_desc q)))"
  using assms
  by (simp add: unpaged_def execute_def order_by_last_updated_on_desc_def limit_clause_def
      offset_clause_def Let_def)

lemma mset_execute_ordered:
  assumes "unpaged q"
  shows "mset (execute d (order_by_last_updated_on_desc q)) = mset (execute d q)"
proof (cases "q_distinct q")
  case True
  have "set (map (q_select q)
       (sort_key (\<lambda>r. - entry_last_updated_on (fst r)) (filter (q_where q d) (joined_rows d)))) =
     set (map (q_select q) (filter (q_where q d) (joined_rows d)))" by simp
  then show ?thesis
    unfolding execute_ordered [OF assms] execute_unpaged [OF assms] using True
    by (simp only: if_True set_eq_iff_mset_remdups_eq)
next
  case False
  then show ?thesis
    unfolding execute_ordered [OF assms] execute_unpaged [OF assms] by simp
qed

lemma Feed_get_Inr:
  assumes "Feed_get d n = Inr fd"
  shows "fd \<in> set (feeds d) \<and> feed_id fd = n"
proof -
  have "find (\<lambda>f. feed_id f = n) (feeds d) = Some fd"
    using assms by (simp add: Feed_get_def split: option.splits)
  then show ?thesis unfolding find_Some_iff by auto
qed

lemma feed_rows_unsubscribed:
  assumes "\<forall>s \<in> set (subscriptions d). \<not> (subscription_user s = u \<and> subscription_feed s = n)"
  shows "filter (\<lambda>(e, f, i, s). subscription_user s = u \<and> subscription_feed s = n)
     (joined_rows d) = []"
proof -
  have "\<forall>r \<in> set (joined_rows d).
      \<not> (case r of (e, f, i, s) \<Rightarrow> subscription_user s = u \<and> subscription_feed s = n)"
  proof
    fix r assume r: "r \<in> set (joined_rows d)"
    obtain e f i s where rr: "r = (e, f, i, s)" by (cases r)
    have "s \<in> set (subscriptions d)" using r unfolding rr mem_joined_rows by simp
    then show "\<not> (case r of (e, f, i, s) \<Rightarrow> subscription_user s = u \<and> subscription_feed s = n)"
      using assms rr by simp
  qed
  then show ?thesis by (simp add: filter_empty_conv)
qed

lemma q_fields_get_feed_entries:
  "q_distinct (get_feed_entries u fd sel)" "q_select (get_feed_entries u fd sel) = sel"
  "q_where (get_feed_entries u fd sel) d =
     (\<lambda>(e, f, i, s). subscription_user s = u \<and> subscription_feed s = feed_id fd)"
  by (simp_all add: get_feed_entries_def distinct_clause_def where_clause_def base_q_def)

text \<open>
  C6. For an existing feed to which user \<open>u\<close> has no subscription, the feed view is
  empty and is no error: the query of \<^verbatim>\<open>get_feed_entries\<close> returns no row with either
  select list, \<^verbatim>\<open>_make_view_variables\<close> succeeds with count 0, and the entry list
  asked with \<^verbatim>\<open>feed=<id>\<close> answers with an empty page.
\<close>

theorem feed_view_unsubscribed:
  assumes "Feed_get d n = Inr fd"
    and "\<forall>s \<in> set (subscriptions d). \<not> (subscription_user s = u \<and> subscription_feed s = n)"
    and "GET ''saved'' = None" "GET ''group'' = None" "GET ''feed'' = Some v" "py_int v = Inr n"
    and "GET ''offset'' = None \<or> (\<exists>w k. GET ''offset'' = Some w \<and> py_int w = Inr k)"
  shows "execute d (get_feed_entries u fd select_default) = [] \<and>
    execute d (get_feed_entries u fd select_Entry_id) = [] \<and>
    (\<exists>ns. make_view_variables py_int u GET d = Inr (get_feed_entries u fd select_default, ns) \<and>
       ns_count ns = 0) \<and>
    (\<exists>page. entry_list py_int GET (Some u) d = (d, Inr page) \<and> lp_entries page = [] \<and>
       ns_count (lp_namespace page) = 0)"
proof -
  have fid: "feed_id fd = n" using Feed_get_Inr [OF assms(1)] by simp
  note empty = feed_rows_unsubscribed [OF assms(2)]
  have a: "execute d (get_feed_entries u fd sel) = []" for sel :: "joined \<Rightarrow> 'b"
    unfolding execute_get_feed_entries fid empty by simp
  have b: "execute d (order_by_last_updated_on_desc (get_feed_entries u fd select_default)) = []"
    unfolding execute_ordered [OF unpaged_views(5)] q_fields_get_feed_entries fid empty by simp
  have c: "\<exists>ns. make_view_variables py_int u GET d = Inr (get_feed_entries u fd select_default, ns) \<and>
       ns_count ns = 0"
    using assms(1,3,4,5,6) by (simp add: make_view_variables_def count_rows_def a)
  then obtain ns where ns: "make_view_variables py_int u GET d =
      Inr (get_feed_entries u fd select_default, ns)" "ns_count ns = 0" by blast
  obtain k where k: "(case GET ''offset'' of None \<Rightarrow> Inr 0 | Some w \<Rightarrow> py_int w) = Inr k"
    using assms(7) by auto
  have "entry_list py_int GET (Some u) d =
      (d, Inr \<lparr>lp_entries = [], lp_offset = k + int ENTRIES_PER_PAGE,
                lp_prev_date = GET ''prev_date'', lp_namespace = ns\<rparr>)"
    unfolding entry_list_def login_required_def
    by (simp add: ns(1) k execute_page [OF unpaged_views(5)] b)
  then have e: "\<exists>page. entry_list py_int GET (Some u) d = (d, Inr page) \<and> lp_entries page = [] \<and>
       ns_count (lp_namespace page) = 0"
    using ns(2) by simp
  from a [of select_default] a [of select_Entry_id] c e show ?thesis by (intro conjI)
qed

theorem feed_view_unsubscribed_witness:
  "Feed_get example_db 1 =
     Inr \<lparr>feed_id = 1, feed_icon = 1, feed_title = Some ''F1'', feed_last_checked_on = Some 100\<rparr> \<and>
   \<not> (\<exists>s \<in> set (subscriptions example_db). subscription_user s = 2 \<and> subscription_feed s = 1) \<and>
   digits_int ''1'' = Inr 1 \<and>
   (\<exists>page. entry_list digits_int [''feed'' \<mapsto> ''1''] (Some 2) example_db = (example_db, Inr page) \<and>
      lp_entries page = [] \<and> ns_count (lp_namespace page) = 0) \<and>
   execute example_db (get_feed_entries 1
     \<lparr>feed_id = 1, feed_icon = 1, feed_title = Some ''F1'', feed_last_checked_on = Some 100\<rparr>
     select_Entry_id) = [1, 2]"
proof -
  let ?f = "\<lparr>feed_id = 1, feed_icon = 1, feed_title = Some ''F1'', feed_last_checked_on = Some 100\<rparr>"
  let ?GET = "[''feed'' \<mapsto> ''1'']"
  have a: "Feed_get example_db 1 = Inr ?f" by (simp add: Feed_get_def example_db_def)
  have b: "\<forall>s \<in> set (subscriptions example_db).
      \<not> (subscription_user s = 2 \<and> subscription_feed s = 1)"
    by (simp add: example_db_def)
  have c: "digits_int ''1'' = Inr 1" by (simp add: digits_int_def)
  have g: "?GET ''saved'' = None" "?GET ''group'' = None" "?GET ''feed'' = Some ''1''"
    "?GET ''offset'' = None \<or> (\<exists>w k. ?GET ''offset'' = Some w \<and> digits_int w = Inr k)"
    by simp_all
  have e: "execute example_db (get_feed_entries 1 ?f select_Entry_id) = [1, 2]"
    unfolding execute_get_feed_entries
    by (simp add: joined_rows_def select_Entry_id_def example_db_def example_entry1_def
        example_entry2_def example_entry3_def example_entry4_def)
  note t = feed_view_unsubscribed [OF a b g(1,2,3) c g(4)]
  note t4 = t [THEN conjunct2, THEN conjunct2, THEN conjunct2]
  have b': "\<not> (\<exists>s \<in> set (subscriptions example_db).
      subscription_user s = 2 \<and> subscription_feed s = 1)"
    using b by blast
  from a b' c t4 e show ?thesis by (intro conjI)
qed

subsection \<open>Two pages of the entry list\<close>

lemma make_view_variables_offset:
  "make_view_variables py_int u (GET(''offset'' \<mapsto> w)) d = make_view_variables py_int u GET d"
proof -
  have "(GET(''offset'' \<mapsto> w)) ''saved'' = GET ''saved''"
    "(GET(''offset'' \<mapsto> w)) ''group'' = GET ''group''"
    "(GET(''offset'' \<mapsto> w)) ''feed'' = GET ''feed''"
    "(GET(''offset'' \<mapsto> w)) ''all'' = GET ''all''"
    by simp_all
  then show ?thesis unfolding make_view_variables_def by (simp only:)
qed

lemma length_remdups_map_inj:
  assumes "inj_on f (set xs)"
  shows "length (remdups (map f xs)) = length (remdups xs)"
  using assms by (simp add: length_remdups_card_conv card_image)

lemma length_remdups_ids:
  assumes "pk_unique d"
  shows "length (remdups (map select_Entry_id (filter P (joined_rows d)))) =
    length (remdups (map select_default (filter P (joined_rows d))))"
proof -
  have "inj_on (entry_id \<circ> fst) (set (map select_default (filter P (joined_rows d))))"
    using inj_on_entry_id_select_default [OF assms, of P] by simp
  from length_remdups_map_inj [OF this] show ?thesis
    unfolding map_id_select_default .
qed

lemma count_rows_views:
  assumes "pk_unique d"
  shows "count_rows d (get_unread_entries u select_Entry_id) =
      length (execute d (get_unread_entries u select_default))"
    "count_rows d (get_saved_entries u select_Entry_id) =
      length (execute d (get_saved_entries u select_default))"
    "count_rows d (get_all_entries u select_Entry_id) =
      length (execute d (get_all_entries u select_default))"
    "count_rows d (get_group_entries u g select_Entry_id) =
      length (execute d (get_group_entries u g select_default))"
    "count_rows d (get_feed_entries u fd select_Entry_id) =
      length (execute d (get_feed_entries u fd select_default))"
  unfolding count_rows_def execute_get_unread_entries execute_get_saved_entries
    execute_get_all_entries execute_get_group_entries execute_get_feed_entries
  by (simp_all only: length_remdups_ids [OF assms] length_map)

text \<open>The filter that \<^verbatim>\<open>_make_view_variables\<close> selected.\<close>

lemma make_view_variables_cases:
  assumes "make_view_variables py_int u GET d = Inr (q, ns)"
  shows "(q = get_saved_entries u select_default \<and>
        ns_count ns = count_rows d (get_saved_entries u select_Entry_id)) \<or>
     (\<exists>g. q = get_group_entries u g select_default \<and>
        ns_count ns = count_rows d (get_group_entries u g select_Entry_id)) \<or>
     (\<exists>fd. q = get_feed_entries u fd select_default \<and>
        ns_count ns = count_rows d (get_feed_entries u fd select_Entry_id)) \<or>
     (q = get_all_entries u select_default \<and>
        ns_count ns = count_rows d (get_all_entries u select_Entry_id)) \<or>
     (q = get_unread_entries u select_default \<and>
        ns_count ns = count_rows d (get_unread_entries u select_Entry_id))"
proof (cases "GET ''saved''")
  case (Some a)
  then show ?thesis using assms by (auto simp: make_view_variables_def)
next
  case saved: None
  show ?thesis
  proof (cases "GET ''group''")
    case (Some v)
    then obtain g where "Group_get d (projr (py_int v)) = Inr g"
      "q = get_group_entries u g select_default"
      "ns_count ns = count_rows d (get_group_entries u g select_Entry_id)"
      using assms saved
      by (cases "py_int v"; cases "Group_get d (projr (py_int v))")
        (auto simp: make_view_variables_def)
    then show ?thesis by blast
  next
    case group: None
    show ?thesis
    proof (cases "GET ''feed''")
      case (Some v)
      then obtain fd where "Feed_get d (projr (py_int v)) = Inr fd"
        "q = get_feed_entries u fd select_default"
        "ns_count ns = count_rows d (get_feed_entries u fd select_Entry_id)"
        using assms saved group
        by (cases "py_int v"; cases "Feed_get d (projr (py_int v))")
          (auto simp: make_view_variables_def)
      then show ?thesis by blast
    next
      case feed: None
      show ?thesis
      proof (cases "GET ''all''")
        case (Some a)
        then show ?thesis using assms saved group feed
          by (auto simp: make_view_variables_def)
      next
        case None
        then show ?thesis using assms saved group feed
          by (auto simp: make_view_variables_def)
      qed
    qed
  qed
qed

lemma make_view_variables_result:
  assumes "pk_unique d" "make_view_variables py_int u GET d = Inr (q, ns)"
  shows "unpaged q \<and> ns_count ns = length (execute d q) \<and>
    (subscription_unique d \<longrightarrow> distinct (map (entry_id \<circ> fst) (execute d q)))"
proof -
  have dup: "subscription_unique d \<Longrightarrow>
      distinct (map (entry_id \<circ> fst) (execute d (get_saved_entries u select_default))) \<and>
      distinct (map (entry_id \<circ> fst) (execute d (get_group_entries u g select_default))) \<and>
      distinct (map (entry_id \<circ> fst) (execute d (get_feed_entries u fd select_default))) \<and>
      distinct (map (entry_id \<circ> fst) (execute d (get_all_entries u select_default))) \<and>
      distinct (map (entry_id \<circ> fst) (execute d (get_unread_entries u select_default)))"
    for g fd
    unfolding execute_get_unread_entries execute_get_saved_entries execute_get_all_entries
      execute_get_feed_entries execute_get_group_entries map_id_select_default
    by (simp only: distinct_ids_remdups_default [OF assms(1)] distinct_ids_group [OF assms(1)]
        simp_thms)
  show ?thesis
    using make_view_variables_cases [OF assms(2)] count_rows_views [OF assms(1), of u] dup
      unpaged_views [where u = u and sel = select_default]
    by (elim disjE exE conjE) simp_all
qed

lemma entry_list_page:
  assumes "make_view_variables py_int u GET d = Inr (q, ns)" "unpaged q" "py_int w = Inr k"
  shows "entry_list py_int (GET(''offset'' \<mapsto> w)) (Some u) d =
    (d, Inr \<lparr>lp_entries = take ENTRIES_PER_PAGE
                (drop (nat k) (execute d (order_by_last_updated_on_desc q))),
              lp_offset = k + int ENTRIES_PER_PAGE,
              lp_prev_date = GET ''prev_date'', lp_namespace = ns\<rparr>)"
  unfolding entry_list_def login_required_def
  by (simp add: make_view_variables_offset assms(1,3) execute_page [OF assms(2)])

text \<open>
  C8. On a database that satisfies the unique constraints, let the selected filter count
  45 matches. The entry list asked at offset 0 and then at offset 30, on the same
  database, answers with 30 and with 15 rows; the rows of the two pages have pairwise
  distinct entry identifiers and are together exactly the rows of the filter's query, and
  the pages report the next offsets 0 + 30 and 30 + 30.
\<close>

theorem entry_list_two_pages:
  assumes "pk_unique d" "subscription_unique d"
    and "make_view_variables py_int u GET d = Inr (q, ns)" "ns_count ns = 45"
    and "py_int w0 = Inr 0" "py_int w30 = Inr 30"
  shows "\<exists>p1 p2. entry_list py_int (GET(''offset'' \<mapsto> w0)) (Some u) d = (d, Inr p1) \<and>
     entry_list py_int (GET(''offset'' \<mapsto> w30)) (Some u) d = (d, Inr p2) \<and>
     length (lp_entries p1) = 30 \<and> length (lp_entries p2) = 15 \<and>
     distinct (map (entry_id \<circ> fst) (lp_entries p1 @ lp_entries p2)) \<and>
     mset (lp_entries p1 @ lp_entries p2) = mset (execute d q) \<and>
     length (execute d q) = 45 \<and>
     lp_offset p1 = 0 + 30 \<and> lp_offset p2 = 30 + 30"
proof -
  let ?X = "execute d (order_by_last_updated_on_desc q)"
  let ?p1 = "\<lparr>lp_entries = take ENTRIES_PER_PAGE (drop (nat 0) ?X),
              lp_offset = 0 + int ENTRIES_PER_PAGE,
              lp_prev_date = GET ''prev_date'', lp_namespace = ns\<rparr>"
  let ?p2 = "\<lparr>lp_entries = take ENTRIES_PER_PAGE (drop (nat 30) ?X),
              lp_offset = 30 + int ENTRIES_PER_PAGE,
              lp_prev_date = GET ''prev_date'', lp_namespace = ns\<rparr>"
  note r = make_view_variables_result [OF assms(1,3)]
  have un: "unpaged q" and len: "length (execute d q) = 45"
    and dist: "distinct (map (entry_id \<circ> fst) (execute d q))"
    using r assms(2,4) by simp_all
  have ms: "mset ?X = mset (execute d q)" by (rule mset_execute_ordered [OF un])
  have lenX: "length ?X = 45" using ms len by (metis size_mset)
  have "mset (map (entry_id \<circ> fst) ?X) = mset (map (entry_id \<circ> fst) (execute d q))"
    using ms by (metis mset_map)
  then have distX: "distinct (map (entry_id \<circ> fst) ?X)"
    using dist by (metis mset_eq_imp_distinct_iff)
  have e1: "entry_list py_int (GET(''offset'' \<mapsto> w0)) (Some u) d = (d, Inr ?p1)"
    by (rule entry_list_page [OF assms(3) un assms(5)])
  have e2: "entry_list py_int (GET(''offset'' \<mapsto> w30)) (Some u) d = (d, Inr ?p2)"
    by (rule entry_list_page [OF assms(3) un assms(6)])
  have l1: "lp_entries ?p1 = take 30 ?X" by (simp add: ENTRIES_PER_PAGE_def)
  have l2: "lp_entries ?p2 = drop 30 ?X" using lenX by (simp add: ENTRIES_PER_PAGE_def)
  have app: "lp_entries ?p1 @ lp_entries ?p2 = ?X" unfolding l1 l2 by simp
  have a: "length (lp_entries ?p1) = 30" unfolding l1 using lenX by simp
  have b: "length (lp_entries ?p2) = 15" unfolding l2 using lenX by simp
  have c: "distinct (map (entry_id \<circ> fst) (lp_entries ?p1 @ lp_entries ?p2))"
    unfolding app by (rule distX)
  have f: "mset (lp_entries ?p1 @ lp_entries ?p2) = mset (execute d q)"
    unfolding app by (rule ms)
  have g: "lp_offset ?p1 = 0 + 30" "lp_offset ?p2 = 30 + 30"
    by (simp_all add: ENTRIES_PER_PAGE_def)
  from e1 e2 a b c f len g show ?thesis by blast
qed

theorem entry_list_two_pages_witness:
  "pk_unique example_db45 \<and> subscription_unique example_db45 \<and>
   (\<exists>ns. make_view_variables digits_int 1 Map.empty example_db45 =
       Inr (get_unread_entries 1 select_default, ns) \<and> ns_count ns = 45) \<and>
   digits_int ''0'' = Inr 0 \<and> digits_int ''30'' = Inr 30 \<and>
   (\<exists>p1 p2. entry_list digits_int [''offset'' \<mapsto> ''0''] (Some 1) example_db45
        = (example_db45, Inr p1) \<and>
     entry_list digits_int [''offset'' \<mapsto> ''30''] (Some 1) example_db45
        = (example_db45, Inr p2) \<and>
     length (lp_entries p1) = 30 \<and> length (lp_entries p2) = 15 \<and>
     distinct (map (entry_id \<circ> fst) (lp_entries p1 @ lp_entries p2)) \<and>
     mset (lp_entries p1 @ lp_entries p2) =
       mset (execute example_db45 (get_unread_entries 1 select_default)) \<and>
     length (execute example_db45 (get_unread_entries 1 select_default)) = 45 \<and>
     lp_offset p1 = 0 + 30 \<and> lp_offset p2 = 30 + 30)"
proof -
  have a: "pk_unique example_db45"
    by (simp add: pk_unique_def example_db45_def distinct_map comp_def inj_on_def)
  have b: "subscription_unique example_db45"
    by (simp add: subscription_unique_def example_db45_def)
  have c: "count_rows example_db45 (get_unread_entries 1 select_Entry_id) = 45"
    unfolding count_rows_def execute_get_unread_entries
    by (simp add: joined_rows_def select_Entry_id_def read_entries_of_def example_db45_def
        upt_rec [of _ "numeral _"])
  have m: "\<exists>ns. make_view_variables digits_int 1 Map.empty example_db45 =
       Inr (get_unread_entries 1 select_default, ns) \<and> ns_count ns = 45"
    by (simp add: make_view_variables_def c)
  then obtain ns where ns: "make_view_variables digits_int 1 Map.empty example_db45 =
       Inr (get_unread_entries 1 select_default, ns)" "ns_count ns = 45" by blast
  have w: "digits_int ''0'' = Inr 0" "digits_int ''30'' = Inr 30"
    by (simp_all add: digits_int_def)
  note t = entry_list_two_pages [OF a b ns w]
  from a b m w t show ?thesis by (intro conjI)
qed

end
